theory Spec2Isabelle
  imports Complex_Main "HOL-Library.Product_Lexorder" "HOL-Library.Log_Nat"
begin

section \<open>JavaScript strings\<close>

text \<open>
  A JavaScript string is a sequence of UTF-16 code units. A code unit is modelled by its
  number, so that the euro sign of a price (\<open>0x20AC\<close>) and the Unicode white space
  that the regular expression class \<open>\s\<close> covers are ordinary elements. \<open>js\<close> turns an
  ASCII literal into such a string.
\<close>

type_synonym jschar = nat
type_synonym jsstring = "jschar list"

definition js :: "string \<Rightarrow> jsstring" where
  "js s = map of_char s"

text \<open>The character classes \<open>\d\<close>, \<open>\s\<close> and \<open>\w\<close> of a regular expression without
  the unicode flag, and the line terminators that \<open>.\<close>, \<open>^\<close> and \<open>$\<close> look at.
  \<open>String.prototype.trim\<close> strips the same set as \<open>\s\<close>.\<close>

definition is_digit :: "jschar \<Rightarrow> bool" where
  "is_digit c \<longleftrightarrow> 48 \<le> c \<and> c \<le> 57"

definition is_space :: "jschar \<Rightarrow> bool" where
  "is_space c \<longleftrightarrow>
     c = 0x09 \<or> c = 0x0A \<or> c = 0x0B \<or> c = 0x0C \<or> c = 0x0D \<or> c = 0x20 \<or> c = 0xA0 \<or>
     c = 0x1680 \<or> (0x2000 \<le> c \<and> c \<le> 0x200A) \<or> c = 0x2028 \<or> c = 0x2029 \<or>
     c = 0x202F \<or> c = 0x205F \<or> c = 0x3000 \<or> c = 0xFEFF"

definition is_line_terminator :: "jschar \<Rightarrow> bool" where
  "is_line_terminator c \<longleftrightarrow> c = 0x0A \<or> c = 0x0D \<or> c = 0x2028 \<or> c = 0x2029"

definition is_word :: "jschar \<Rightarrow> bool" where
  "is_word c \<longleftrightarrow>
     (48 \<le> c \<and> c \<le> 57) \<or> (65 \<le> c \<and> c \<le> 90) \<or> c = 95 \<or> (97 \<le> c \<and> c \<le> 122)"

text \<open>\<open>s.startsWith(p)\<close> and \<open>s.includes(p)\<close>.\<close>

fun startsWith :: "jsstring \<Rightarrow> jsstring \<Rightarrow> bool" where
  "startsWith s [] = True"
| "startsWith [] (p # ps) = False"
| "startsWith (c # cs) (p # ps) = (c = p \<and> startsWith cs ps)"

fun includes_str :: "jsstring \<Rightarrow> jsstring \<Rightarrow> bool" where
  "includes_str [] p = (p = [])"
| "includes_str (c # cs) p = (startsWith (c # cs) p \<or> includes_str cs p)"

definition trim :: "jsstring \<Rightarrow> jsstring" where
  "trim s = rev (dropWhile is_space (rev (dropWhile is_space s)))"

text \<open>\<open>s.replace(a, b)\<close> with a one-character string pattern: only the first occurrence
  is replaced.\<close>

fun replace_first :: "jschar \<Rightarrow> jschar \<Rightarrow> jsstring \<Rightarrow> jsstring" where
  "replace_first a b [] = []"
| "replace_first a b (c # cs) = (if c = a then b # cs else c # replace_first a b cs)"

section \<open>JavaScript numbers\<close>

text \<open>
  A number is an IEEE 754 double: \<open>Num q\<close> is the finite double whose exact value is the
  rational \<open>q\<close>. The two zeros are one value \<open>Num 0\<close>: the code never tells them apart
  (\<open>-0 || 0\<close> is \<open>0\<close>, and comparisons treat them alike).
\<close>

datatype jsnum = NaN | NegInf | Num rat | PosInf

text \<open>
  \<open>to_double a b\<close> is the double nearest to the fraction \<open>a / b\<close> (\<open>0 < b\<close>), ties to
  even, as ECMAScript's "Number value for" a mathematical value: \<open>e\<close> is the binary
  exponent of the fraction, at least that of the subnormals, \<open>p\<close> the exponent of the
  last place of the 53-bit significand, \<open>m\<close> the significand rounded to an integer,
  and the double is \<open>m * 2^p\<close>. A rounded value of \<open>2^1024\<close> or more is infinite.
\<close>

definition binary_exponent :: "nat \<Rightarrow> nat \<Rightarrow> int" where
  "binary_exponent a b =
     (let k = bitlen (int a) - bitlen (int b)
      in if (if 0 \<le> k then b * 2 ^ nat k \<le> a else b \<le> a * 2 ^ nat (- k)) then k else k - 1)"

definition round_half_even :: "nat \<Rightarrow> nat \<Rightarrow> nat" where
  "round_half_even n d =
     (let q = n div d; r = n mod d
      in if 2 * r < d then q else if d < 2 * r then q + 1 else if even q then q else q + 1)"

definition to_double :: "nat \<Rightarrow> nat \<Rightarrow> jsnum" where
  "to_double a b =
     (if a = 0 then Num 0
      else let e = max (binary_exponent a b) (- 1022);
               p = e - 52;
               m = round_half_even (a * 2 ^ nat (- p)) (b * 2 ^ nat p)
           in if 2 ^ 1024 \<le> m * 2 ^ nat p then PosInf
              else Num (of_int (int (m * 2 ^ nat p)) / of_int (int (2 ^ nat (- p)))))"

fun negate :: "jsnum \<Rightarrow> jsnum" where
  "negate NaN = NaN"
| "negate NegInf = PosInf"
| "negate (Num q) = Num (- q)"
| "negate PosInf = NegInf"

text \<open>The relational operators: every comparison with \<open>NaN\<close> is false. \<open>num_key\<close>
  places the numbers on a line, for the comparisons and for sorting.\<close>

fun num_key :: "jsnum \<Rightarrow> nat \<times> rat" where
  "num_key NegInf = (0, 0)"
| "num_key (Num q) = (1, q)"
| "num_key PosInf = (2, 0)"
| "num_key NaN = (3, 0)"

definition num_lt :: "jsnum \<Rightarrow> jsnum \<Rightarrow> bool" where
  "num_lt x y \<longleftrightarrow> x \<noteq> NaN \<and> y \<noteq> NaN \<and> num_key x < num_key y"

definition num_gt :: "jsnum \<Rightarrow> jsnum \<Rightarrow> bool" where
  "num_gt x y \<longleftrightarrow> num_lt y x"

definition num_ge :: "jsnum \<Rightarrow> jsnum \<Rightarrow> bool" where
  "num_ge x y \<longleftrightarrow> x \<noteq> NaN \<and> y \<noteq> NaN \<and> num_key y \<le> num_key x"

definition num_le :: "jsnum \<Rightarrow> jsnum \<Rightarrow> bool" where
  "num_le x y \<longleftrightarrow> num_ge y x"

text \<open>
  Addition: the exact sum of two finite doubles, rounded to the nearest double;
  infinities of opposite signs and \<open>NaN\<close> give \<open>NaN\<close>. \<open>round_rat\<close> rounds a
  rational, the sign apart.
\<close>

definition round_rat :: "rat \<Rightarrow> jsnum" where
  "round_rat r =
     (let (n, d) = quotient_of r
      in if n < 0 then negate (to_double (nat (- n)) (nat d)) else to_double (nat n) (nat d))"

fun num_add :: "jsnum \<Rightarrow> jsnum \<Rightarrow> jsnum" where
  "num_add (Num x) (Num y) = round_rat (x + y)"
| "num_add NaN y = NaN"
| "num_add x NaN = NaN"
| "num_add PosInf NegInf = NaN"
| "num_add NegInf PosInf = NaN"
| "num_add PosInf y = PosInf"
| "num_add x PosInf = PosInf"
| "num_add NegInf y = NegInf"
| "num_add x NegInf = NegInf"

text \<open>\<open>x || y\<close> on numbers: \<open>NaN\<close> and zero are falsy.\<close>

definition num_or :: "jsnum \<Rightarrow> jsnum \<Rightarrow> jsnum" where
  "num_or x y = (if x = NaN \<or> x = Num 0 then y else x)"

subsection \<open>parseFloat\<close>

text \<open>
  \<open>parseFloat\<close> skips leading white space and converts the longest prefix of the rest
  that is a decimal literal: an optional sign, then \<open>Infinity\<close>, or digits with an
  optional fraction and an optional exponent. Without such a prefix the result is
  \<open>NaN\<close>.
\<close>

definition digits_val :: "jsstring \<Rightarrow> nat" where
  "digits_val ds = foldl (\<lambda>a c. 10 * a + (c - 48)) 0 ds"

definition exponent_part :: "jsstring \<Rightarrow> int" where
  "exponent_part s =
     (case s of
        [] \<Rightarrow> 0
      | c # r \<Rightarrow>
          if c = 0x65 \<or> c = 0x45 then
            (case r of
               [] \<Rightarrow> 0
             | d # r' \<Rightarrow>
                 if d = 0x2D then
                   (if takeWhile is_digit r' = [] then 0 else - int (digits_val (takeWhile is_digit r')))
                 else if d = 0x2B then int (digits_val (takeWhile is_digit r'))
                 else int (digits_val (takeWhile is_digit r)))
          else 0)"

definition decimal_to_double :: "nat \<Rightarrow> int \<Rightarrow> jsnum" where
  "decimal_to_double mant ex =
     (if 0 \<le> ex then to_double (mant * 10 ^ nat ex) 1 else to_double mant (10 ^ nat (- ex)))"

definition parseFloat :: "jsstring \<Rightarrow> jsnum" where
  "parseFloat s =
     (let t = dropWhile is_space s;
          neg = (t \<noteq> [] \<and> hd t = 0x2D);
          u = (if t \<noteq> [] \<and> (hd t = 0x2D \<or> hd t = 0x2B) then tl t else t)
      in if startsWith u (js ''Infinity'') then (if neg then NegInf else PosInf)
         else
           let ip = takeWhile is_digit u;
               r1 = dropWhile is_digit u;
               dot = (r1 \<noteq> [] \<and> hd r1 = 0x2E);
               fp = (if dot then takeWhile is_digit (tl r1) else []);
               r2 = (if dot then dropWhile is_digit (tl r1) else r1)
           in if ip = [] \<and> fp = [] then NaN
              else
                let v = decimal_to_double (digits_val (ip @ fp)) (exponent_part r2 - int (length fp))
                in if neg then negate v else v)"

section \<open>The catalog\<close>

text \<open>
  The fields of \<open>Wine\<close> that the code under study reads; the other fields of the
  interface live in the record's extension. \<open>Color\<close> is read through \<open>?.\<close>, so it
  may be absent; \<open>food_pairing\<close> is read as \<open>w.food_pairing || []\<close>, so an absent
  one is the empty list.
\<close>

record Wine =
  wine_id :: jsstring
  Product_name :: jsstring
  Price :: jsstring
  Color :: "jsstring option"
  URL :: jsstring
  food_pairing :: "jsstring list"

section \<open>Price normalizer\<close>

text \<open>
  \<^verbatim>\<open>
  function parsePrice(priceStr: string): number {
    const num = priceStr.replace(/[^0-9,.-]/g, '').replace(',', '.')
    return parseFloat(num) || 0
  }
  \<close>
\<close>

definition price_char :: "jschar \<Rightarrow> bool" where
  "price_char c \<longleftrightarrow> is_digit c \<or> c = 0x2C \<or> c = 0x2E \<or> c = 0x2D"

definition price_chars :: "jsstring \<Rightarrow> jsstring" where
  "price_chars s = filter price_char s"

definition parsePrice :: "jsstring \<Rightarrow> jsnum" where
  "parsePrice priceStr =
     (let num = replace_first 0x2C 0x2E (price_chars priceStr)
      in num_or (parseFloat num) (Num 0))"

section \<open>Cart store\<close>

text \<open>
  \<open>DelhaizeCart\<close> keeps a private array of entries; an entry is identified by the URL of
  its wine. Each method is a function from the array to the new array. A quantity is a
  JavaScript number, so it may be a fraction, an infinity or \<open>NaN\<close>; \<open>+=\<close> is the
  addition of doubles and \<open>quantity <= 0\<close> is false for \<open>NaN\<close>. The time of
  \<open>new Date()\<close> is an argument. Writing the array to local storage does not change it
  and is left out.
  \<^verbatim>\<open>
  addItem(wine: Wine, quantity = 1): boolean {
    const id = wine.URL
    const existingIndex = this.items.findIndex((item) => item.wine.URL === id)
    if (existingIndex >= 0) {
      this.items[existingIndex].quantity += quantity
      this.items[existingIndex].addedAt = new Date()
    } else {
      if (this.items.length >= MAX_CART_ITEMS) {
        return false // Cart is full
      }
      this.items.push({ wine, quantity, addedAt: new Date() })
    }
    this.saveToStorage()
    return true
  }
  removeItem(wineUrl: string): void {
    this.items = this.items.filter((item) => item.wine.URL !== wineUrl)
    this.saveToStorage()
  }
  updateQuantity(wineUrl: string, quantity: number): void {
    const index = this.items.findIndex((item) => item.wine.URL === wineUrl)
    if (index >= 0) {
      if (quantity <= 0) {
        this.removeItem(wineUrl)
      } else {
        this.items[index].quantity = quantity
        this.saveToStorage()
      }
    }
  }
  \<close>
\<close>

record CartItem =
  wine :: Wine
  quantity :: jsnum
  addedAt :: nat

definition MAX_CART_ITEMS :: nat where
  "MAX_CART_ITEMS = 20"

text \<open>\<open>findIndex\<close>: the first index whose element satisfies the test, \<open>None\<close> for \<open>-1\<close>.\<close>

fun findIndex :: "('a \<Rightarrow> bool) \<Rightarrow> 'a list \<Rightarrow> nat option" where
  "findIndex P [] = None"
| "findIndex P (x # xs) =
     (if P x then Some 0 else (case findIndex P xs of None \<Rightarrow> None | Some i \<Rightarrow> Some (Suc i)))"

definition addItem :: "nat \<Rightarrow> Wine \<Rightarrow> jsnum \<Rightarrow> CartItem list \<Rightarrow> bool \<times> CartItem list" where
  "addItem now w q items =
     (case findIndex (\<lambda>item. URL (wine item) = URL w) items of
        Some i \<Rightarrow>
          (True, items[i := (items ! i)\<lparr>quantity := num_add (quantity (items ! i)) q,
                                        addedAt := now\<rparr>])
      | None \<Rightarrow>
          if MAX_CART_ITEMS \<le> length items then (False, items)
          else (True, items @ [\<lparr>wine = w, quantity = q, addedAt = now\<rparr>]))"

definition removeItem :: "jsstring \<Rightarrow> CartItem list \<Rightarrow> CartItem list" where
  "removeItem wineUrl items = filter (\<lambda>item. URL (wine item) \<noteq> wineUrl) items"

definition updateQuantity :: "jsstring \<Rightarrow> jsnum \<Rightarrow> CartItem list \<Rightarrow> CartItem list" where
  "updateQuantity wineUrl q items =
     (case findIndex (\<lambda>item. URL (wine item) = wineUrl) items of
        Some i \<Rightarrow>
          if num_le q (Num 0) then removeItem wineUrl items
          else items[i := (items ! i)\<lparr>quantity := q\<rparr>]
      | None \<Rightarrow> items)"

text \<open>The cart states that the three operations reach from the empty cart. \<open>A\<close> is
  the set of quantities that callers pass to \<open>addItem\<close>, \<open>B\<close> the set of those they
  pass to \<open>updateQuantity\<close>.\<close>

inductive cart_reachable :: "jsnum set \<Rightarrow> jsnum set \<Rightarrow> CartItem list \<Rightarrow> bool"
  for A :: "jsnum set" and B :: "jsnum set" where
  empty_cart: "cart_reachable A B []"
| after_add: "cart_reachable A B items \<Longrightarrow> q \<in> A \<Longrightarrow>
    cart_reachable A B (snd (addItem now w q items))"
| after_remove: "cart_reachable A B items \<Longrightarrow> cart_reachable A B (removeItem u items)"
| after_update: "cart_reachable A B items \<Longrightarrow> q \<in> B \<Longrightarrow>
    cart_reachable A B (updateQuantity u q items)"

section \<open>Sample data\<close>

text \<open>A catalog entry from ASCII literals, for the concrete runs below.\<close>

definition wine_of :: "string \<Rightarrow> string \<Rightarrow> string \<Rightarrow> string \<Rightarrow> Wine" where
  "wine_of i n p c =
     \<lparr>wine_id = js i, Product_name = js n, Price = js p, Color = Some (js c),
      URL = js (''https://shop/'' @ i), food_pairing = []\<rparr>"

definition wine_w1 :: Wine where
  "wine_w1 = wine_of ''w1'' ''Merlot'' ''9,99'' ''red''"

definition wine_a :: Wine where
  "wine_a = wine_of ''a'' ''Merlot Reserve'' ''9,99 EUR'' ''red''"

definition wine_b :: Wine where
  "wine_b = wine_of ''b'' ''Chablis'' ''18,00 EUR'' ''white''"

definition wine_c :: Wine where
  "wine_c = wine_of ''c'' ''Merlot'' ''14,00 EUR'' ''red''"

definition wine_d :: Wine where
  "wine_d = wine_of ''d'' ''Champagne Brut'' ''22,00 EUR'' ''sparkling''"

definition wine_e :: Wine where
  "wine_e = wine_of ''e'' ''Cabernet Franc'' ''12,50 EUR'' ''red''"

text \<open>Replies of the model: one that ends with the list of ids (a known id, an unknown
  one, two known ones), one whose list has no known id, and one with a numbered list.\<close>

definition reply_with_ids :: jsstring where
  "reply_with_ids =
     js ''Try these. RECOMMENDED_IDS: ['' @ [0x22] @ js ''c'' @ [0x22] @ js '', '' @
     [0x22] @ js ''zz'' @ [0x22] @ js '', '' @ [0x22] @ js ''a'' @ [0x22] @ js '', '' @
     [0x22] @ js ''d'' @ [0x22] @ js '']''"

definition reply_unknown_ids :: jsstring where
  "reply_unknown_ids = js ''RECOMMENDED_IDS: [zz]''"


text \<open>A reply that names a wine in running text only.\<close>

definition reply_names :: jsstring where
  "reply_names = js ''I suggest the Merlot Reserve tonight.''"

section \<open>Unicode tables\<close>

text \<open>
  \<open>toLowerCase\<close> and \<open>normalize("NFD")\<close> are functions of the JavaScript runtime that
  read the Unicode case and decomposition tables. The model takes them as a parameter
  \<open>U\<close>, so every result below holds for whatever the tables say.
\<close>

record unicode =
  toLowerCase :: "jsstring \<Rightarrow> jsstring"
  normalizeNFD :: "jsstring \<Rightarrow> jsstring"

text \<open>
  For the concrete runs, \<open>latin1\<close> gives the two functions on Basic Latin and the Latin-1
  Supplement: the capital letters \<open>A-Z\<close> and \<open>0xC0-0xDE\<close> (but the multiplication sign)
  go to the letter 32 places on, and an accented letter decomposes into its base letter
  and a combining mark.
\<close>

definition lower_char :: "jschar \<Rightarrow> jschar" where
  "lower_char c =
     (if (0x41 \<le> c \<and> c \<le> 0x5A) \<or> (0xC0 \<le> c \<and> c \<le> 0xDE \<and> c \<noteq> 0xD7) then c + 32 else c)"

definition decomposition_row :: "jschar \<Rightarrow> jschar \<Rightarrow> jschar list \<Rightarrow> (jschar \<times> jsstring) list" where
  "decomposition_row start base marks =
     map (\<lambda>(i, m). (start + i, [base, m])) (zip [0..<length marks] marks)"

definition latin1_decompositions :: "(jschar \<times> jsstring) list" where
  "latin1_decompositions =
     decomposition_row 0xC0 0x41 [0x300, 0x301, 0x302, 0x303, 0x308, 0x30A] @
     decomposition_row 0xC7 0x43 [0x327] @
     decomposition_row 0xC8 0x45 [0x300, 0x301, 0x302, 0x308] @
     decomposition_row 0xCC 0x49 [0x300, 0x301, 0x302, 0x308] @
     decomposition_row 0xD1 0x4E [0x303] @
     decomposition_row 0xD2 0x4F [0x300, 0x301, 0x302, 0x303, 0x308] @
     decomposition_row 0xD9 0x55 [0x300, 0x301, 0x302, 0x308] @
     decomposition_row 0xDD 0x59 [0x301] @
     decomposition_row 0xE0 0x61 [0x300, 0x301, 0x302, 0x303, 0x308, 0x30A] @
     decomposition_row 0xE7 0x63 [0x327] @
     decomposition_row 0xE8 0x65 [0x300, 0x301, 0x302, 0x308] @
     decomposition_row 0xEC 0x69 [0x300, 0x301, 0x302, 0x308] @
     decomposition_row 0xF1 0x6E [0x303] @
     decomposition_row 0xF2 0x6F [0x300, 0x301, 0x302, 0x303, 0x308] @
     decomposition_row 0xF9 0x75 [0x300, 0x301, 0x302, 0x308] @
     decomposition_row 0xFD 0x79 [0x301] @
     decomposition_row 0xFF 0x79 [0x308]"

definition nfd_char :: "jschar \<Rightarrow> jsstring" where
  "nfd_char c = (case map_of latin1_decompositions c of Some d \<Rightarrow> d | None \<Rightarrow> [c])"

definition latin1 :: unicode where
  "latin1 = \<lparr>toLowerCase = map lower_char, normalizeNFD = (\<lambda>s. concat (map nfd_char s))\<rparr>"

section \<open>Regular expressions of the route\<close>

text \<open>
  With the flag \<open>i\<close> and without the flag \<open>u\<close>, a character of the text matches an
  ASCII character of the pattern when the two have the same upper case, and a character
  from \<open>0x80\<close> on never matches an ASCII one.
\<close>

definition ascii_upper :: "jschar \<Rightarrow> jschar" where
  "ascii_upper c = (if 0x61 \<le> c \<and> c \<le> 0x7A then c - 32 else c)"

fun startsWith_ci :: "jsstring \<Rightarrow> jsstring \<Rightarrow> bool" where
  "startsWith_ci s [] = True"
| "startsWith_ci [] (p # ps) = False"
| "startsWith_ci (c # cs) (p # ps) = (ascii_upper c = ascii_upper p \<and> startsWith_ci cs ps)"

text \<open>
  \<^verbatim>\<open>/(?:above|over|greater than)\s*(\d+)/i\<close> and
  \<^verbatim>\<open>/(?:under|less than|below)\s*(\d+)/i\<close>: one of the keywords, white space, then
  digits. \<open>number_after\<close> tries the keywords in order at the start of the text and returns
  the captured digits; \<open>match_number\<close> returns the capture of the leftmost match. Both
  \<open>\s*\<close> and \<open>\d+\<close> are greedy, and what follows each cannot match what it takes, so
  backtracking finds nothing more.
\<close>

fun number_after :: "jsstring list \<Rightarrow> jsstring \<Rightarrow> jsstring option" where
  "number_after [] s = None"
| "number_after (kw # kws) s =
     (if startsWith_ci s kw \<and> takeWhile is_digit (dropWhile is_space (drop (length kw) s)) \<noteq> []
      then Some (takeWhile is_digit (dropWhile is_space (drop (length kw) s)))
      else number_after kws s)"

fun match_number :: "jsstring list \<Rightarrow> jsstring \<Rightarrow> jsstring option" where
  "match_number kws [] = None"
| "match_number kws (c # cs) =
     (case number_after kws (c # cs) of
        Some ds \<Rightarrow> Some ds
      | None \<Rightarrow> match_number kws cs)"

definition above_keywords :: "jsstring list" where
  "above_keywords = [js ''above'', js ''over'', js ''greater than'']"

definition under_keywords :: "jsstring list" where
  "under_keywords = [js ''under'', js ''less than'', js ''below'']"

text \<open>
  \<^verbatim>\<open>/\b(expensive|premium|high[- ]end|luxury)\b/i\<close>: every alternative begins and ends
  with a word character, so \<open>\b\<close> asks for no word character before and none after.
  \<open>prev\<close> is the character before the position, if any.
\<close>

definition premium_keywords :: "jsstring list" where
  "premium_keywords =
     [js ''expensive'', js ''premium'', js ''high-end'', js ''high end'', js ''luxury'']"

definition word_at :: "jschar option \<Rightarrow> jsstring \<Rightarrow> jsstring \<Rightarrow> bool" where
  "word_at prev s kw \<longleftrightarrow>
     (case prev of None \<Rightarrow> True | Some a \<Rightarrow> \<not> is_word a) \<and>
     startsWith_ci s kw \<and>
     (case drop (length kw) s of [] \<Rightarrow> True | b # _ \<Rightarrow> \<not> is_word b)"

fun test_words :: "jsstring list \<Rightarrow> jschar option \<Rightarrow> jsstring \<Rightarrow> bool" where
  "test_words kws prev [] = False"
| "test_words kws prev (c # cs) =
     (list_ex (word_at prev (c # cs)) kws \<or> test_words kws (Some c) cs)"

section \<open>Query pre-filter\<close>

text \<open>
  The first part of \<open>POST\<close>: the candidates after the exclusion of the ids already shown
  and after the price filter. \<open>excludeIds\<close> is \<open>None\<close> when the request carries no
  array. \<open>Math.floor(prices.length * 0.75)\<close> is \<open>3 * n div 4\<close>: the product
  with 0.75 is exact in a double for every array length. The comparison function
  \<open>(a, b) => a - b\<close> orders the prices as \<open>num_key\<close> does, since no price is \<open>NaN\<close>.

  \<^verbatim>\<open>
  let candidates: Wine[] = wines
  if (Array.isArray(excludeIds) && excludeIds.length > 0) {
    candidates = candidates.filter((w) => !excludeIds.includes(w.id))
  }
  const text = message.toLowerCase()
  let priceMatch
  if ((priceMatch = text.match(/(?:above|over|greater than)\s*(\d+)/i))) {
    const threshold = parseFloat(priceMatch[1])
    candidates = candidates.filter((w) => parsePrice(w.Price) > threshold)
  } else if ((priceMatch = text.match(/(?:under|less than|below)\s*(\d+)/i))) {
    const threshold = parseFloat(priceMatch[1])
    candidates = candidates.filter((w) => parsePrice(w.Price) < threshold)
  }
  else if (/\b(expensive|premium|high[- ]end|luxury)\b/i.test(text)) {
    const prices = candidates.map((w) => parsePrice(w.Price)).sort((a, b) => a - b)
    if (prices.length > 0) {
      const idx = Math.floor(prices.length * 0.75)
      const threshold = prices[idx]
      candidates = candidates.filter((w) => parsePrice(w.Price) >= threshold)
    }
  }
  \<close>
\<close>

definition exclude_shown :: "jsstring list option \<Rightarrow> Wine list \<Rightarrow> Wine list" where
  "exclude_shown excludeIds wines =
     (case excludeIds of
        None \<Rightarrow> wines
      | Some ex \<Rightarrow> if 0 < length ex then filter (\<lambda>w. wine_id w \<notin> set ex) wines else wines)"

definition premium_filter :: "Wine list \<Rightarrow> Wine list" where
  "premium_filter candidates =
     (let prices = sort_key num_key (map (\<lambda>w. parsePrice (Price w)) candidates)
      in if 0 < length prices then
           (let idx = 3 * length prices div 4;
                threshold = prices ! idx
            in filter (\<lambda>w. num_ge (parsePrice (Price w)) threshold) candidates)
         else candidates)"

definition POST_candidates :: "unicode \<Rightarrow> jsstring \<Rightarrow> Wine list \<Rightarrow> jsstring list option \<Rightarrow> Wine list" where
  "POST_candidates U message wines excludeIds =
     (let candidates = exclude_shown excludeIds wines;
          text = toLowerCase U message
      in case match_number above_keywords text of
           Some ds \<Rightarrow>
             (let threshold = parseFloat ds
              in filter (\<lambda>w. num_gt (parsePrice (Price w)) threshold) candidates)
         | None \<Rightarrow>
             (case match_number under_keywords text of
                Some ds \<Rightarrow>
                  (let threshold = parseFloat ds
                   in filter (\<lambda>w. num_lt (parsePrice (Price w)) threshold) candidates)
              | None \<Rightarrow>
                  if test_words premium_keywords None text then premium_filter candidates
                  else candidates))"

section \<open>Degraded mode\<close>

text \<open>
  \<^verbatim>\<open>
  function getSimpleFallback(message: string, wines: Wine[]): Wine[] {
    const lower = message.toLowerCase()
    let filtered: Wine[] = []
    if (lower.includes("red")) {
      filtered = wines.filter((w) => w.Color?.toLowerCase() === "red")
    } else if (lower.includes("white")) {
      filtered = wines.filter((w) => w.Color?.toLowerCase() === "white")
    } else if (lower.includes("ros") || lower.includes("rose")) {
      filtered = wines.filter((w) => w.Color?.toLowerCase() === "rose")
    } else if (lower.includes("sparkling") || lower.includes("bubbl")) {
      filtered = wines.filter((w) => w.Color?.toLowerCase() === "sparkling")
    }
    if (filtered.length >= 3) {
      return filtered.slice(0, 3)
    }
    return wines.slice(0, 3)
  }
  \<close>
\<close>

definition has_color :: "unicode \<Rightarrow> jsstring \<Rightarrow> Wine \<Rightarrow> bool" where
  "has_color U c w \<longleftrightarrow> (case Color w of None \<Rightarrow> False | Some col \<Rightarrow> toLowerCase U col = c)"

definition getSimpleFallback :: "unicode \<Rightarrow> jsstring \<Rightarrow> Wine list \<Rightarrow> Wine list" where
  "getSimpleFallback U message wines =
     (let lower = toLowerCase U message;
          filtered =
            (if includes_str lower (js ''red'') then filter (has_color U (js ''red'')) wines
             else if includes_str lower (js ''white'') then filter (has_color U (js ''white'')) wines
             else if includes_str lower (js ''ros'') \<or> includes_str lower (js ''rose'')
               then filter (has_color U (js ''rose'')) wines
             else if includes_str lower (js ''sparkling'') \<or> includes_str lower (js ''bubbl'')
               then filter (has_color U (js ''sparkling'')) wines
             else [])
      in if 3 \<le> length filtered then take 3 filtered else take 3 wines)"

datatype Language = en | fr | nl

text \<open>\<open>generateFallbackResponse\<close> ignores the query and the catalog and returns the canned
  text of the language.\<close>

fun generateFallbackResponse :: "jsstring \<Rightarrow> Wine list \<Rightarrow> Language \<Rightarrow> jsstring" where
  "generateFallbackResponse message wines en =
     js ''Based on your preferences, here are some excellent wine options from our Delhaize selection. These wines would be perfect for your needs!''"
| "generateFallbackResponse message wines fr =
     js ''Bas'' @ [0xE9] @ js '' sur vos pr'' @ [0xE9] @ js ''f'' @ [0xE9] @ js ''rences, voici d'' @ [0x27] @
     js ''excellentes options de vin de notre s'' @ [0xE9] @
     js ''lection Delhaize. Ces vins seraient parfaits pour vos besoins !''"
| "generateFallbackResponse message wines nl =
     js ''Op basis van uw voorkeuren zijn hier enkele uitstekende wijnopties uit onze Delhaize selectie. Deze wijnen zouden perfect zijn voor uw behoeften!''"

section \<open>Recommendation extractor\<close>

subsection \<open>Layer 1: the list of ids\<close>

text \<open>
  \<^verbatim>\<open>/RECOMMENDED_IDS:?\s*\[([^\]]+)\]/i\<close>: the word, an optional colon, white space, an
  opening bracket, at least one character that is not a closing bracket, a closing
  bracket. \<open>id_section_at\<close> matches at the start of the text and returns the capture,
  \<open>match_id_section\<close> returns the capture of the leftmost match. Each greedy part takes
  all it can and what follows it cannot match what it took, so backtracking finds
  nothing more.
\<close>

definition id_section_at :: "jsstring \<Rightarrow> jsstring option" where
  "id_section_at s =
     (if startsWith_ci s (js ''RECOMMENDED_IDS'') then
        (let r1 = drop 15 s;
             r2 = (case r1 of [] \<Rightarrow> [] | c # r \<Rightarrow> if c = 0x3A then r else c # r);
             r3 = dropWhile is_space r2
         in case r3 of
              [] \<Rightarrow> None
            | c # r \<Rightarrow>
                if c = 0x5B \<and> takeWhile (\<lambda>x. x \<noteq> 0x5D) r \<noteq> [] \<and> dropWhile (\<lambda>x. x \<noteq> 0x5D) r \<noteq> []
                then Some (takeWhile (\<lambda>x. x \<noteq> 0x5D) r)
                else None)
      else None)"

fun match_id_section :: "jsstring \<Rightarrow> jsstring option" where
  "match_id_section [] = None"
| "match_id_section (c # cs) =
     (case id_section_at (c # cs) of
        Some content \<Rightarrow> Some content
      | None \<Rightarrow> match_id_section cs)"

text \<open>\<open>s.split(/[,\s]+/)\<close>: the pieces between the maximal runs of separators; a
  separator at either end leaves an empty piece there.\<close>

function split_on :: "(jschar \<Rightarrow> bool) \<Rightarrow> jsstring \<Rightarrow> jsstring list" where
  "split_on sep s =
     (if dropWhile (\<lambda>c. \<not> sep c) s = [] then [s]
      else takeWhile (\<lambda>c. \<not> sep c) s #
           split_on sep (dropWhile sep (dropWhile (\<lambda>c. \<not> sep c) s)))"
  by pat_completeness auto
termination
proof (relation "measure (\<lambda>(sep, s). length s)")
  show "wf (measure (\<lambda>(sep, s). length s))" by simp
next
  fix sep :: "jschar \<Rightarrow> bool" and s :: jsstring
  assume ne: "dropWhile (\<lambda>c. \<not> sep c) s \<noteq> []"
  then obtain c r where cr: "dropWhile (\<lambda>c. \<not> sep c) s = c # r"
    by (cases "dropWhile (\<lambda>c. \<not> sep c) s") auto
  have "sep c"
    using hd_dropWhile [OF ne] cr by simp
  then have "length (dropWhile sep (c # r)) \<le> length r"
    by (simp add: length_dropWhile_le)
  moreover have "length (c # r) \<le> length s"
    using length_dropWhile_le [of "\<lambda>c. \<not> sep c" s] cr by simp
  ultimately show "((sep, dropWhile sep (dropWhile (\<lambda>c. \<not> sep c) s)), (sep, s))
      \<in> measure (\<lambda>(sep, s). length s)"
    using cr by simp
qed

declare split_on.simps [simp del]

text \<open>
  \<^verbatim>\<open>
  const ids = idSection[1]
    .split(/[,\s]+/)
    .map((s) => s.replace(/"/g, "").trim())
    .filter(Boolean)
  const wineMap = new Map(wines.map(w => [w.id, w]))
  const foundOrdered = ids
    .map(id => wineMap.get(id))
    .filter((wine): wine is Wine => Boolean(wine))
  if (foundOrdered.length > 0) return foundOrdered.slice(0, 8)
  \<close>
  A later entry of the \<open>Map\<close> constructor's argument replaces an earlier one with the
  same key.
\<close>

definition parse_ids :: "jsstring \<Rightarrow> jsstring list" where
  "parse_ids content =
     filter (\<lambda>s. s \<noteq> [])
       (map (\<lambda>s. trim (filter (\<lambda>c. c \<noteq> 0x22) s))
         (split_on (\<lambda>c. c = 0x2C \<or> is_space c) content))"

definition wineMap :: "Wine list \<Rightarrow> jsstring \<rightharpoonup> Wine" where
  "wineMap wines = map_of (rev (map (\<lambda>w. (wine_id w, w)) wines))"

definition foundOrdered :: "jsstring list \<Rightarrow> Wine list \<Rightarrow> Wine list" where
  "foundOrdered ids wines = List.map_filter (wineMap wines) ids"

subsection \<open>Layer 2: numbered titles\<close>

text \<open>
  \<^verbatim>\<open>/^\d+\.\s+(.*)$/gm\<close> in the loop of \<open>exec\<close>: at the start of a line, digits, a
  dot, white space (which may run over line breaks), then the rest of the line as the
  title. \<open>title_at\<close> matches at the start of the text and returns the title and the text
  after the match; \<open>.*\<close> stops at a line terminator or at the end, where \<open>$\<close> holds.
  \<open>scan_titles\<close> is the loop: \<open>bol\<close> says that the position is the start of a line;
  after a match the search goes on behind it, which is never the start of a line.
\<close>

definition title_at :: "jsstring \<Rightarrow> (jsstring \<times> jsstring) option" where
  "title_at s =
     (let r1 = dropWhile is_digit s
      in if takeWhile is_digit s \<noteq> [] \<and> r1 \<noteq> [] \<and> hd r1 = 0x2E \<and>
            takeWhile is_space (tl r1) \<noteq> []
         then (let r2 = dropWhile is_space (tl r1)
               in Some (takeWhile (\<lambda>c. \<not> is_line_terminator c) r2,
                        dropWhile (\<lambda>c. \<not> is_line_terminator c) r2))
         else None)"

function scan_titles :: "bool \<Rightarrow> jsstring \<Rightarrow> jsstring list" where
  "scan_titles bol [] = []"
| "scan_titles bol (c # cs) =
     (if bol then
        (case title_at (c # cs) of
           Some (title, rest) \<Rightarrow> trim title # scan_titles False rest
         | None \<Rightarrow> scan_titles (is_line_terminator c) cs)
      else scan_titles (is_line_terminator c) cs)"
  by pat_completeness auto
termination
proof (relation "measure (\<lambda>(bol, s). length s)")
  show "wf (measure (\<lambda>(bol, s). length s))" by simp
next
  fix bol :: bool and c :: jschar and cs title rest :: jsstring and x :: "jsstring \<times> jsstring"
  assume "bol" and t: "title_at (c # cs) = Some x" and x: "(title, rest) = x"
  let ?r1 = "dropWhile is_digit (c # cs)"
  from t x have r1: "?r1 \<noteq> []"
    and rest: "rest = dropWhile (\<lambda>c. \<not> is_line_terminator c) (dropWhile is_space (tl ?r1))"
    by (auto simp: title_at_def Let_def split: if_splits)
  have "length rest \<le> length (tl ?r1)"
    unfolding rest
    by (rule le_trans [OF length_dropWhile_le length_dropWhile_le])
  also have "\<dots> < length ?r1"
    using r1 by (cases ?r1) auto
  also have "\<dots> \<le> length (c # cs)"
    by (rule length_dropWhile_le)
  finally show "((False, rest), (bol, c # cs)) \<in> measure (\<lambda>(bol, s). length s)"
    by simp
next
  fix bol :: bool and c :: jschar and cs :: jsstring
  show "((is_line_terminator c, cs), (bol, c # cs)) \<in> measure (\<lambda>(bol, s). length s)"
    by simp
next
  fix bol :: bool and c :: jschar and cs :: jsstring
  show "((is_line_terminator c, cs), (bol, c # cs)) \<in> measure (\<lambda>(bol, s). length s)"
    by simp
qed

text \<open>
  \<^verbatim>\<open>
  function normalize(text: string): string {
    return text
      .toLowerCase()
      .normalize("NFD")                      // decompose accents
      .replace(/[\u0300-\u036f]/g, "")      // strip accents
      .replace(/[^\w\s]/g, "")              // remove punctuation
      .replace(/\s+/g, " ")                 // collapse whitespace
      .trim();
  }
  \<close>
\<close>

function collapse_spaces :: "jsstring \<Rightarrow> jsstring" where
  "collapse_spaces [] = []"
| "collapse_spaces (c # cs) =
     (if is_space c then 0x20 # collapse_spaces (dropWhile is_space cs)
      else c # collapse_spaces cs)"
  by pat_completeness auto
termination
  by (relation "measure length") (auto simp: le_imp_less_Suc length_dropWhile_le)

definition normalize_str :: "unicode \<Rightarrow> jsstring \<Rightarrow> jsstring" where
  "normalize_str U text =
     trim (collapse_spaces
       (filter (\<lambda>c. is_word c \<or> is_space c)
         (filter (\<lambda>c. \<not> (0x300 \<le> c \<and> c \<le> 0x36F))
           (normalizeNFD U (toLowerCase U text)))))"

text \<open>
  \<^verbatim>\<open>
  const matchedByTitle = titles
    .map(title => {
      const normTitle = normalize(title);
      return wines.find(w => normalize(w.Product_name).startsWith(normTitle));
    })
    .filter((wine): wine is Wine => Boolean(wine));
  \<close>
\<close>

definition find_by_title :: "unicode \<Rightarrow> Wine list \<Rightarrow> jsstring \<Rightarrow> Wine option" where
  "find_by_title U wines title =
     (let normTitle = normalize_str U title
      in List.find (\<lambda>w. startsWith (normalize_str U (Product_name w)) normTitle) wines)"

definition matchedByTitle :: "unicode \<Rightarrow> jsstring \<Rightarrow> Wine list \<Rightarrow> Wine list" where
  "matchedByTitle U response wines =
     List.map_filter (find_by_title U wines) (scan_titles True response)"

subsection \<open>Layer 3: names inside the reply\<close>

text \<open>
  \<^verbatim>\<open>
  const recsByName: Wine[] = [];
  const responseText = response.toLowerCase();
  for (const wine of wines) {
    if (recsByName.length >= 8) break;
    if (wine.Product_name && responseText.includes(wine.Product_name.toLowerCase())) {
      recsByName.push(wine);
    }
  }
  \<close>
  An empty name is falsy.
\<close>

definition name_in_reply :: "unicode \<Rightarrow> jsstring \<Rightarrow> Wine \<Rightarrow> bool" where
  "name_in_reply U responseText w \<longleftrightarrow>
     Product_name w \<noteq> [] \<and> includes_str responseText (toLowerCase U (Product_name w))"

fun names_loop :: "unicode \<Rightarrow> jsstring \<Rightarrow> Wine list \<Rightarrow> Wine list \<Rightarrow> Wine list" where
  "names_loop U responseText [] recsByName = recsByName"
| "names_loop U responseText (w # ws) recsByName =
     (if 8 \<le> length recsByName then recsByName
      else if name_in_reply U responseText w then names_loop U responseText ws (recsByName @ [w])
      else names_loop U responseText ws recsByName)"

definition recsByName :: "unicode \<Rightarrow> jsstring \<Rightarrow> Wine list \<Rightarrow> Wine list" where
  "recsByName U response wines = names_loop U (toLowerCase U response) wines []"

text \<open>
  The specification's wording of this layer, for comparison with the loop above: the
  candidates are examined longest display name first.
\<close>

definition recsByName_longest_first :: "unicode \<Rightarrow> jsstring \<Rightarrow> Wine list \<Rightarrow> Wine list" where
  "recsByName_longest_first U response wines =
     names_loop U (toLowerCase U response)
       (rev (sort_key (\<lambda>w. length (Product_name w)) wines)) []"

subsection \<open>Layer 4: one wine per category\<close>

text \<open>
  \<open>getIntelligentFallback\<close> tests membership with \<open>recommendations.includes(w)\<close>, which
  compares object references. An object of the array \<open>wines\<close> is therefore the pair of
  its index and its value: two entries with equal fields stay two objects.
\<close>

definition name_has :: "unicode \<Rightarrow> jsstring list \<Rightarrow> Wine \<Rightarrow> bool" where
  "name_has U keys w \<longleftrightarrow>
     list_ex (\<lambda>k. includes_str (toLowerCase U (Product_name w)) k) keys"

definition red_keys :: "jsstring list" where
  "red_keys = [js ''rouge'', js ''red'', js ''merlot'', js ''cabernet'', js ''syrah'']"

definition white_keys :: "jsstring list" where
  "white_keys = [js ''blanc'', js ''white'', js ''chardonnay'', js ''sauvignon'']"

definition sparkling_keys :: "jsstring list" where
  "sparkling_keys = [js ''champagne'', js ''mousseux'', js ''brut'']"

definition rose_keys :: "jsstring list" where
  "rose_keys = [js ''ros'' @ [0xE9], js ''rose'', js ''gris'']"

text \<open>
  \<^verbatim>\<open>
  const recommendations: Wine[] = []
  if (categories.red.length > 0) recommendations.push(categories.red[0])
  if (categories.white.length > 0) recommendations.push(categories.white[0])
  if (categories.sparkling.length > 0) recommendations.push(categories.sparkling[0])
  if (categories.rose.length > 0) recommendations.push(categories.rose[0])
  while (recommendations.length < 4 && recommendations.length < wines.length) {
    const remaining = wines.filter((w) => !recommendations.includes(w))
    if (remaining.length > 0) {
      recommendations.push(remaining[0])
    } else {
      break
    }
  }
  return recommendations.slice(0, 4)
  \<close>
\<close>

function fill_slots :: "(nat \<times> Wine) list \<Rightarrow> (nat \<times> Wine) list \<Rightarrow> (nat \<times> Wine) list" where
  "fill_slots objs recommendations =
     (if length recommendations < 4 \<and> length recommendations < length objs then
        (case filter (\<lambda>w. w \<notin> set recommendations) objs of
           [] \<Rightarrow> recommendations
         | r # _ \<Rightarrow> fill_slots objs (recommendations @ [r]))
      else recommendations)"
  by pat_completeness auto
termination
  by (relation "measure (\<lambda>(objs, recommendations). 4 - length recommendations)") auto

declare fill_slots.simps [simp del]

definition getIntelligentFallback :: "unicode \<Rightarrow> Wine list \<Rightarrow> Wine list" where
  "getIntelligentFallback U wines =
     (let objs = zip [0..<length wines] wines;
          red = filter (\<lambda>w. name_has U red_keys (snd w)) objs;
          white = filter (\<lambda>w. name_has U white_keys (snd w)) objs;
          sparkling = filter (\<lambda>w. name_has U sparkling_keys (snd w)) objs;
          rose = filter (\<lambda>w. name_has U rose_keys (snd w)) objs;
          recommendations = take 1 red @ take 1 white @ take 1 sparkling @ take 1 rose
      in map snd (take 4 (fill_slots objs recommendations)))"

subsection \<open>The layers in turn\<close>

text \<open>Each of the first three layers returns from the function when it has found a wine
  (\<open>Some\<close>) and lets the next one run when it has found none (\<open>None\<close>).\<close>

definition ids_layer :: "jsstring \<Rightarrow> Wine list \<Rightarrow> Wine list option" where
  "ids_layer response wines =
     (case match_id_section response of
        None \<Rightarrow> None
      | Some content \<Rightarrow>
          (let found = foundOrdered (parse_ids content) wines
           in if 0 < length found then Some (take 8 found) else None))"

definition titles_layer :: "unicode \<Rightarrow> jsstring \<Rightarrow> Wine list \<Rightarrow> Wine list option" where
  "titles_layer U response wines =
     (let matched = matchedByTitle U response wines
      in if 0 < length matched then Some (take 8 matched) else None)"

definition names_layer :: "unicode \<Rightarrow> jsstring \<Rightarrow> Wine list \<Rightarrow> Wine list option" where
  "names_layer U response wines =
     (let recs = recsByName U response wines
      in if 0 < length recs then Some recs else None)"

definition extractRecommendationsFromResponse :: "unicode \<Rightarrow> jsstring \<Rightarrow> Wine list \<Rightarrow> Wine list" where
  "extractRecommendationsFromResponse U response wines =
     (case ids_layer response wines of
        Some found \<Rightarrow> found
      | None \<Rightarrow>
          (case titles_layer U response wines of
             Some matched \<Rightarrow> matched
           | None \<Rightarrow>
               (case names_layer U response wines of
                  Some recs \<Rightarrow> recs
                | None \<Rightarrow> getIntelligentFallback U wines)))"

section \<open>The endpoint\<close>

text \<open>
  A request with its fields of the right types. \<open>api_key\<close> says whether
  \<open>process.env.OPENAI_API_KEY\<close> is set. \<open>generateText k\<close> is the outcome of the
  \<open>k\<close>-th call of the completion service, \<open>None\<close> when the call throws; the prompts do
  not enter the model, so the outcome is arbitrary. The result is the JSON body of the
  response and the number of calls of the completion service.
\<close>

record Request =
  req_message :: jsstring
  req_language :: Language
  req_wines :: "Wine list"
  req_excludeIds :: "jsstring list option"

record Response =
  res_message :: jsstring
  res_recommendations :: "Wine list"

definition degraded :: "unicode \<Rightarrow> Request \<Rightarrow> Response" where
  "degraded U req =
     \<lparr>res_message = generateFallbackResponse (req_message req) (req_wines req) (req_language req),
      res_recommendations = getSimpleFallback U (req_message req) (req_wines req)\<rparr>"

definition POST :: "unicode \<Rightarrow> bool \<Rightarrow> (nat \<Rightarrow> jsstring option) \<Rightarrow> Request \<Rightarrow> Response \<times> nat" where
  "POST U api_key generateText req =
     (let dataset = POST_candidates U (req_message req) (req_wines req) (req_excludeIds req)
      in if \<not> api_key then (degraded U req, 0)
         else
           (case generateText 0 of
              None \<Rightarrow> (degraded U req, 1)
            | Some text \<Rightarrow>
                (let recommendations = extractRecommendationsFromResponse U text dataset;
                     recs = (if 0 < length recommendations then recommendations
                             else getSimpleFallback U (req_message req) dataset)
                 in (\<lparr>res_message = text, res_recommendations = recs\<rparr>, 1))))"

section \<open>Chat controller: pagination\<close>

text \<open>
  The state of the \<open>WineChatbot\<close> component that pagination reads and writes.
  \<open>requests\<close> counts the calls of \<open>fetch("/api/wine-advice")\<close>, each of which is
  one completion call of the endpoint. The ids and timestamps of messages come from the
  clock and are left out.
\<close>

datatype Role = user | assistant

record ChatMessage =
  msg_role :: Role
  msg_content :: jsstring
  msg_recommendations :: "Wine list option"
  msg_startIndex :: "nat option"

record ChatState =
  messages :: "ChatMessage list"
  shownIds :: "jsstring list"
  lastRecs :: "Wine list"
  requests :: nat

definition text_message :: "Role \<Rightarrow> jsstring \<Rightarrow> ChatMessage" where
  "text_message r c =
     \<lparr>msg_role = r, msg_content = c, msg_recommendations = None, msg_startIndex = None\<rparr>"

definition recommendations_message :: "Wine list \<Rightarrow> nat \<Rightarrow> ChatMessage" where
  "recommendations_message batch start =
     \<lparr>msg_role = assistant, msg_content = js ''WINE_RECOMMENDATIONS'',
      msg_recommendations = Some batch, msg_startIndex = Some start\<rparr>"

definition show_more_message :: ChatMessage where
  "show_more_message = text_message assistant (js ''SHOW_MORE'')"

text \<open>
  \<^verbatim>\<open>
  const handleShowMore = () => {
    const start = shownIds.length
    const nextBatch = lastRecs.slice(start, start + 4)
    if (nextBatch.length === 0) return
    const recMsg: ChatMessage = { ..., content: "WINE_RECOMMENDATIONS",
      recommendations: nextBatch, startIndex: start }
    setMessages((prev) => [...prev, recMsg])
    setShownIds((prev) => [...prev, ...nextBatch.map((w) => w.id)])
    if (start + nextBatch.length < lastRecs.length) {
      const showMoreMsg: ChatMessage = { ..., content: "SHOW_MORE" }
      setMessages((prev) => [...prev, showMoreMsg])
    }
  }
  \<close>
\<close>

definition handleShowMore :: "ChatState \<Rightarrow> ChatState" where
  "handleShowMore st =
     (let start = length (shownIds st);
          nextBatch = take 4 (drop start (lastRecs st))
      in if length nextBatch = 0 then st
         else
           (let st1 = st\<lparr>messages := messages st @ [recommendations_message nextBatch start]\<rparr>;
                st2 = st1\<lparr>shownIds := shownIds st1 @ map wine_id nextBatch\<rparr>
            in if start + length nextBatch < length (lastRecs st)
               then st2\<lparr>messages := messages st2 @ [show_more_message]\<rparr>
               else st2))"

text \<open>
  The padding of the recommendations up to 16, from the block of \<open>handleSubmit\<close> that
  runs when the response carries recommendations:
  \<^verbatim>\<open>
  const fullRecs = [...recs]
  if (fullRecs.length < 16) {
    const lowerQuery = userQuery.toLowerCase()
    let colorKey: string | null = null
    if (lowerQuery.includes("red")) colorKey = "red"
    else if (lowerQuery.includes("white")) colorKey = "white"
    else if (lowerQuery.includes("ros")) colorKey = "rose"
    else if (lowerQuery.includes("sparkling") || lowerQuery.includes("bubbl")) colorKey = "sparkling"
    const remaining = (wineData[language] as WineType[]).filter(
      (w) => !fullRecs.find((r) => r.id === w.id)
        && (colorKey ? w.Color?.toLowerCase() === colorKey : true)
    )
    for (const w of remaining) {
      if (fullRecs.length >= 16) break
      fullRecs.push(w)
    }
  }
  \<close>
\<close>

definition colorKey :: "unicode \<Rightarrow> jsstring \<Rightarrow> jsstring option" where
  "colorKey U userQuery =
     (let lowerQuery = toLowerCase U userQuery
      in if includes_str lowerQuery (js ''red'') then Some (js ''red'')
         else if includes_str lowerQuery (js ''white'') then Some (js ''white'')
         else if includes_str lowerQuery (js ''ros'') then Some (js ''rose'')
         else if includes_str lowerQuery (js ''sparkling'') \<or> includes_str lowerQuery (js ''bubbl'')
           then Some (js ''sparkling'')
         else None)"

fun push_until_16 :: "Wine list \<Rightarrow> Wine list \<Rightarrow> Wine list" where
  "push_until_16 [] fullRecs = fullRecs"
| "push_until_16 (w # ws) fullRecs =
     (if 16 \<le> length fullRecs then fullRecs else push_until_16 ws (fullRecs @ [w]))"

definition fullRecs :: "unicode \<Rightarrow> Wine list \<Rightarrow> jsstring \<Rightarrow> Wine list \<Rightarrow> Wine list" where
  "fullRecs U catalog userQuery recs =
     (if length recs < 16 then
        (let remaining =
               filter (\<lambda>w. \<not> list_ex (\<lambda>r. wine_id r = wine_id w) recs \<and>
                            (case colorKey U userQuery of
                               Some k \<Rightarrow> has_color U k w
                             | None \<Rightarrow> True))
                 catalog
         in push_until_16 remaining recs)
      else recs)"

text \<open>
  The rest of the block: the suggested food pairings, the first four cards, the ids
  shown, and the button for more.
  \<^verbatim>\<open>
  setLastRecs(fullRecs)
  const allPairs = recs.flatMap((w) => w.food_pairing || [])
  const uniquePairs = Array.from(new Set(allPairs)).slice(0, 4)
  if (uniquePairs.length > 0) {
    const pairingMessage = { ..., content: `FOOD_SUGGESTIONS:${uniquePairs.join("|")}` }
    setMessages((prev) => [...prev, pairingMessage])
  }
  const initialRecs = fullRecs.slice(0, 4)
  const recommendationsMessage = { ..., content: "WINE_RECOMMENDATIONS",
    recommendations: initialRecs, startIndex: 0 }
  setMessages((prev) => [...prev, recommendationsMessage])
  setShownIds(initialRecs.map((w) => w.id))
  if (fullRecs.length > initialRecs.length) {
    const showMoreMessage = { ..., content: "SHOW_MORE" }
    setMessages((prev) => [...prev, showMoreMessage])
  }
  \<close>
\<close>

fun join :: "jsstring \<Rightarrow> jsstring list \<Rightarrow> jsstring" where
  "join sep [] = []"
| "join sep [x] = x"
| "join sep (x # y # ys) = x @ sep @ join sep (y # ys)"

definition unique_in_order :: "'a list \<Rightarrow> 'a list" where
  "unique_in_order xs = rev (remdups (rev xs))"

definition show_recommendations :: "unicode \<Rightarrow> Wine list \<Rightarrow> jsstring \<Rightarrow> Wine list \<Rightarrow> ChatState \<Rightarrow> ChatState" where
  "show_recommendations U catalog userQuery recs st =
     (if 0 < length recs then
        (let full = fullRecs U catalog userQuery recs;
             st1 = st\<lparr>lastRecs := full\<rparr>;
             uniquePairs = take 4 (unique_in_order (concat (map food_pairing recs)));
             st2 = (if 0 < length uniquePairs
                    then st1\<lparr>messages := messages st1 @
                           [text_message assistant (js ''FOOD_SUGGESTIONS:'' @ join (js ''|'') uniquePairs)]\<rparr>
                    else st1);
             initialRecs = take 4 full;
             st3 = st2\<lparr>messages := messages st2 @ [recommendations_message initialRecs 0]\<rparr>;
             st4 = st3\<lparr>shownIds := map wine_id initialRecs\<rparr>
         in if length initialRecs < length full
            then st4\<lparr>messages := messages st4 @ [show_more_message]\<rparr>
            else st4)
      else st)"

text \<open>
  \<open>handleSubmit\<close> around that block. \<open>outcome\<close> is the body of the endpoint's response,
  \<open>None\<close> when the request fails. The cleaning of the reply text for display does not
  bear on pagination and is the parameter \<open>clean\<close>.
  The handler is one step here, from the click to the end of the response, so that
  \<open>isLoading\<close> is false whenever it starts.
  \<^verbatim>\<open>
  if (!input.trim() || isLoading) return
  const userQuery = input.trim()
  ...
  setMessages((prev) => [...prev, userMessage])
  setLastQuery(userQuery)
  setShownIds([])
  ...
  try {
    const response = await fetch("/api/wine-advice", ...)
    if (!response.ok) { throw new Error("Failed to get wine advice") }
    const result = await response.json()
    ...
    setMessages((prev) => [...prev, assistantMessage])
    if (result.recommendations && result.recommendations.length > 0) { ... }
  } catch (error) {
    const errorMessage = { ..., content: "Sorry, I encountered an error. Please try again." }
    setMessages((prev) => [...prev, errorMessage])
  }
  \<close>
\<close>

definition handleSubmit :: "unicode \<Rightarrow> (jsstring \<Rightarrow> jsstring) \<Rightarrow> Wine list \<Rightarrow> jsstring \<Rightarrow> Response option \<Rightarrow> ChatState \<Rightarrow> ChatState" where
  "handleSubmit U clean catalog input outcome st =
     (if trim input = [] then st
      else
        (let userQuery = trim input;
             st1 = st\<lparr>messages := messages st @ [text_message user userQuery],
                      shownIds := [], requests := requests st + 1\<rparr>
         in case outcome of
              None \<Rightarrow>
                st1\<lparr>messages := messages st1 @
                  [text_message assistant (js ''Sorry, I encountered an error. Please try again.'')]\<rparr>
            | Some result \<Rightarrow>
                show_recommendations U catalog userQuery (res_recommendations result)
                  (st1\<lparr>messages := messages st1 @
                     [text_message assistant (clean (res_message result))]\<rparr>)))"

text \<open>After each handler the ids shown are those of the first items of the list that is
  being paged.\<close>

definition paging :: "ChatState \<Rightarrow> bool" where
  "paging st \<longleftrightarrow> shownIds st = map wine_id (take (length (shownIds st)) (lastRecs st))"

section \<open>Sample session\<close>

text \<open>A catalog of ten red wines, a reply that recommends two of them, and the state of
  the component when it is first shown.\<close>

definition cellar_wine :: "string \<Rightarrow> Wine" where
  "cellar_wine i = wine_of i (''Cuvee '' @ i) ''10,00 EUR'' ''red''"

definition cellar :: "Wine list" where
  "cellar = map cellar_wine
     [''p0'', ''p1'', ''p2'', ''p3'', ''p4'', ''p5'', ''p6'', ''p7'', ''p8'', ''p9'']"

definition first_visit :: ChatState where
  "first_visit = \<lparr>messages = [], shownIds = [], lastRecs = [], requests = 0\<rparr>"

definition answer_p3_p1 :: Response where
  "answer_p3_p1 =
     \<lparr>res_message = js ''Enjoy'', res_recommendations = [cellar_wine ''p3'', cellar_wine ''p1'']\<rparr>"

chapter \<open>Properties\<close>

section \<open>Query pre-filter: the price filters\<close>

lemma parsePrice_not_NaN: "parsePrice s \<noteq> NaN"
  by (simp add: parsePrice_def num_or_def Let_def)

lemma num_ge_refl: "x \<noteq> NaN \<Longrightarrow> num_ge x x"
  by (simp add: num_ge_def)

lemma sort_key_Nil_iff: "sort_key f xs = [] \<longleftrightarrow> xs = []"
  by (metis length_sort length_0_conv)

lemma percentile_index: "0 < n \<Longrightarrow> 3 * n div 4 < (n::nat)"
  by simp

lemma premium_threshold_mem:
  assumes "candidates \<noteq> []"
  shows "sort_key num_key (map (\<lambda>w. parsePrice (Price w)) candidates) ! (3 * length candidates div 4)
         \<in> set (map (\<lambda>w. parsePrice (Price w)) candidates)"
proof -
  let ?prices = "sort_key num_key (map (\<lambda>w. parsePrice (Price w)) candidates)"
  have "3 * length candidates div 4 < length ?prices"
    using assms percentile_index [of "length candidates"] by simp
  then have "?prices ! (3 * length candidates div 4) \<in> set ?prices"
    by (rule nth_mem)
  then show ?thesis by simp
qed

lemma premium_filter_keeps_one:
  assumes "candidates \<noteq> []"
  shows "premium_filter candidates \<noteq> []"
proof -
  let ?t = "sort_key num_key (map (\<lambda>w. parsePrice (Price w)) candidates) ! (3 * length candidates div 4)"
  from premium_threshold_mem [OF assms]
  obtain w where w: "w \<in> set candidates" "parsePrice (Price w) = ?t"
    by auto
  have "num_ge (parsePrice (Price w)) ?t"
    using w(2) parsePrice_not_NaN [of "Price w"] by (simp add: num_ge_refl)
  with w(1) have "w \<in> set (filter (\<lambda>w. num_ge (parsePrice (Price w)) ?t) candidates)"
    by simp
  then have "filter (\<lambda>w. num_ge (parsePrice (Price w)) ?t) candidates \<noteq> []"
    by (auto simp: filter_empty_conv)
  then show ?thesis
    using assms by (simp add: premium_filter_def Let_def sort_key_Nil_iff)
qed

text \<open>
  C10. When the query takes the luxury/premium branch and candidates remain after the
  exclusion, the index \<open>floor(0.75 * n)\<close> lies inside the sorted price list, the
  threshold is the price of a candidate, and the pre-filter returns at least one
  candidate.
\<close>

theorem premium_branch_nonempty:
  assumes "exclude_shown excludeIds wines \<noteq> []"
    and "match_number above_keywords (toLowerCase U message) = None"
    and "match_number under_keywords (toLowerCase U message) = None"
    and "test_words premium_keywords None (toLowerCase U message)"
  shows "POST_candidates U message wines excludeIds = premium_filter (exclude_shown excludeIds wines) \<and>
         3 * length (exclude_shown excludeIds wines) div 4 < length (exclude_shown excludeIds wines) \<and>
         sort_key num_key (map (\<lambda>w. parsePrice (Price w)) (exclude_shown excludeIds wines)) !
             (3 * length (exclude_shown excludeIds wines) div 4)
           \<in> set (map (\<lambda>w. parsePrice (Price w)) (exclude_shown excludeIds wines)) \<and>
         POST_candidates U message wines excludeIds \<noteq> []"
proof -
  have eq: "POST_candidates U message wines excludeIds = premium_filter (exclude_shown excludeIds wines)"
    using assms(2-4) by (simp add: POST_candidates_def Let_def)
  show ?thesis
    using eq premium_filter_keeps_one [OF assms(1)] premium_threshold_mem [OF assms(1)] assms(1)
      percentile_index [of "length (exclude_shown excludeIds wines)"]
    by simp
qed

text \<open>
  C3. With \<open>c\<close> the catalog without the excluded ids and \<open>t\<close> the lower-cased query:
  if \<open>t\<close> matches above/over/greater than \<open>N\<close>, the candidates are the items of \<open>c\<close>
  priced strictly above \<open>N\<close>; else if \<open>t\<close> matches under/less than/below \<open>N\<close>, those
  priced strictly below \<open>N\<close>; else if \<open>t\<close> has a luxury/premium keyword, those priced at
  or above the element at index \<open>floor(0.75 * n)\<close> of the ascending price list of \<open>c\<close>;
  else \<open>c\<close> itself. Exactly one case applies.
\<close>

theorem prefilter_cases:
  fixes U message wines excludeIds
  defines "t \<equiv> toLowerCase U message"
    and "c \<equiv> (case excludeIds of None \<Rightarrow> wines | Some ex \<Rightarrow> filter (\<lambda>w. wine_id w \<notin> set ex) wines)"
  shows "(\<forall>ds. match_number above_keywords t = Some ds \<longrightarrow>
            POST_candidates U message wines excludeIds =
              filter (\<lambda>w. num_gt (parsePrice (Price w)) (parseFloat ds)) c) \<and>
         (\<forall>ds. match_number above_keywords t = None \<and> match_number under_keywords t = Some ds \<longrightarrow>
            POST_candidates U message wines excludeIds =
              filter (\<lambda>w. num_lt (parsePrice (Price w)) (parseFloat ds)) c) \<and>
         (match_number above_keywords t = None \<and> match_number under_keywords t = None \<and>
          test_words premium_keywords None t \<and> c \<noteq> [] \<longrightarrow>
            POST_candidates U message wines excludeIds =
              filter (\<lambda>w. num_ge (parsePrice (Price w))
                        (sort_key num_key (map (\<lambda>w. parsePrice (Price w)) c) ! (3 * length c div 4))) c) \<and>
         (match_number above_keywords t = None \<and> match_number under_keywords t = None \<and>
          test_words premium_keywords None t \<and> c = [] \<longrightarrow>
            POST_candidates U message wines excludeIds = []) \<and>
         (match_number above_keywords t = None \<and> match_number under_keywords t = None \<and>
          \<not> test_words premium_keywords None t \<longrightarrow>
            POST_candidates U message wines excludeIds = c)"
proof -
  have c: "exclude_shown excludeIds wines = c"
    by (auto simp: exclude_shown_def c_def split: option.splits)
  show ?thesis
    unfolding POST_candidates_def c t_def [symmetric]
    by (simp add: Let_def premium_filter_def sort_key_Nil_iff)
qed

section \<open>Query pre-filter: concrete runs\<close>

lemma bitlen_numeral_step:
  "bitlen (numeral k) = bitlen (numeral k div 2) + 1"
  using compute_bitlen [of "numeral k"] by simp

lemma bitlen_one: "bitlen 1 = 1"
  using compute_bitlen [of 1] by simp

lemmas to_double_eval = to_double_def binary_exponent_def round_half_even_def Let_def
  bitlen_numeral_step bitlen_one

lemmas parseFloat_eval = parseFloat_def exponent_part_def decimal_to_double_def digits_val_def
  js_def is_digit_def is_space_def Let_def

lemma parsePrice_eval:
  assumes "price_chars s = t" and "replace_first 0x2C 0x2E t = u" and "parseFloat u = v"
  shows "parsePrice s = num_or v (Num 0)"
  using assms by (simp add: parsePrice_def)

lemma price_wine_a: "parsePrice (Price wine_a) = Num (5623870034678907 / 562949953421312)"
proof -
  have 1: "price_chars (Price wine_a) = js ''9,99''"
    by (simp add: wine_a_def wine_of_def price_chars_def price_char_def js_def is_digit_def)
  have 2: "replace_first 0x2C 0x2E (js ''9,99'') = js ''9.99''"
    by (simp add: js_def)
  have 3: "parseFloat (js ''9.99'') = to_double 999 100"
    by (simp add: parseFloat_eval)
  have 4: "to_double 999 100 = Num (5623870034678907 / 562949953421312)"
    by (simp add: to_double_eval)
  show ?thesis
    using parsePrice_eval [OF 1 2 3] 4 by (simp add: num_or_def)
qed

lemma price_wine_b: "parsePrice (Price wine_b) = Num 18"
proof -
  have 1: "price_chars (Price wine_b) = js ''18,00''"
    by (simp add: wine_b_def wine_of_def price_chars_def price_char_def js_def is_digit_def)
  have 2: "replace_first 0x2C 0x2E (js ''18,00'') = js ''18.00''"
    by (simp add: js_def)
  have 3: "parseFloat (js ''18.00'') = to_double 1800 100"
    by (simp add: parseFloat_eval)
  have 4: "to_double 1800 100 = Num 18"
    by (simp add: to_double_eval)
  show ?thesis
    using parsePrice_eval [OF 1 2 3] 4 by (simp add: num_or_def)
qed

lemma price_wine_c: "parsePrice (Price wine_c) = Num 14"
proof -
  have 1: "price_chars (Price wine_c) = js ''14,00''"
    by (simp add: wine_c_def wine_of_def price_chars_def price_char_def js_def is_digit_def)
  have 2: "replace_first 0x2C 0x2E (js ''14,00'') = js ''14.00''"
    by (simp add: js_def)
  have 3: "parseFloat (js ''14.00'') = to_double 1400 100"
    by (simp add: parseFloat_eval)
  have 4: "to_double 1400 100 = Num 14"
    by (simp add: to_double_eval)
  show ?thesis
    using parsePrice_eval [OF 1 2 3] 4 by (simp add: num_or_def)
qed

lemma price_wine_d: "parsePrice (Price wine_d) = Num 22"
proof -
  have 1: "price_chars (Price wine_d) = js ''22,00''"
    by (simp add: wine_d_def wine_of_def price_chars_def price_char_def js_def is_digit_def)
  have 2: "replace_first 0x2C 0x2E (js ''22,00'') = js ''22.00''"
    by (simp add: js_def)
  have 3: "parseFloat (js ''22.00'') = to_double 2200 100"
    by (simp add: parseFloat_eval)
  have 4: "to_double 2200 100 = Num 22"
    by (simp add: to_double_eval)
  show ?thesis
    using parsePrice_eval [OF 1 2 3] 4 by (simp add: num_or_def)
qed

lemma threshold_15: "parseFloat (js ''15'') = Num 15"
proof -
  have "parseFloat (js ''15'') = to_double 15 1"
    by (simp add: parseFloat_eval)
  also have "\<dots> = Num 15"
    by (simp add: to_double_eval)
  finally show ?thesis .
qed

lemma latin1_lower_ascii: "toLowerCase latin1 (js ''a Red wine UNDER 15'') = js ''a red wine under 15''"
  by (simp add: latin1_def js_def lower_char_def)

lemmas match_eval = above_keywords_def under_keywords_def premium_keywords_def js_def
  ascii_upper_def is_digit_def is_space_def is_word_def word_at_def

lemma q1_above: "match_number above_keywords (js ''a red wine under 15'') = None"
  by (simp add: match_eval)

lemma q1_under: "match_number under_keywords (js ''a red wine under 15'') = Some (js ''15'')"
  by (simp add: match_eval)


lemma q2_lower: "toLowerCase latin1 (js ''Something over 15 euros'') = js ''something over 15 euros''"
  by (simp add: latin1_def js_def lower_char_def)

lemma q2_above: "match_number above_keywords (js ''something over 15 euros'') = Some (js ''15'')"
  by (simp add: match_eval)

lemma q3_lower: "toLowerCase latin1 (js ''A bottle for tonight'') = js ''a bottle for tonight''"
  by (simp add: latin1_def js_def lower_char_def)

lemma q3_above: "match_number above_keywords (js ''a bottle for tonight'') = None"
  by (simp add: match_eval)

lemma q3_under: "match_number under_keywords (js ''a bottle for tonight'') = None"
  by (simp add: match_eval)

lemma q3_premium: "\<not> test_words premium_keywords None (js ''a bottle for tonight'')"
  by (simp add: match_eval)

lemma q4_lower: "toLowerCase latin1 (js ''A Premium bottle'') = js ''a premium bottle''"
  by (simp add: latin1_def js_def lower_char_def)

lemma q4_above: "match_number above_keywords (js ''a premium bottle'') = None"
  by (simp add: match_eval)

lemma q4_under: "match_number under_keywords (js ''a premium bottle'') = None"
  by (simp add: match_eval)

lemma q4_premium: "test_words premium_keywords None (js ''a premium bottle'')"
  by (simp add: match_eval)

lemma js_eq_iff: "js s = js t \<longleftrightarrow> s = t"
proof -
  have "inj (of_char :: char \<Rightarrow> nat)"
    by (rule injI) simp
  then show ?thesis
    by (simp add: js_def inj_map_eq_map)
qed

lemma sample_ids:
  "wine_id wine_a = js ''a''" "wine_id wine_b = js ''b''"
  "wine_id wine_c = js ''c''" "wine_id wine_d = js ''d''"
  by (simp_all add: wine_a_def wine_b_def wine_c_def wine_d_def wine_of_def)

lemmas sample_prices = price_wine_a price_wine_b price_wine_c price_wine_d

theorem prefilter_cases_witness:
  "POST_candidates latin1 (js ''a Red wine UNDER 15'') [wine_a, wine_b, wine_c, wine_d]
     (Some [js ''c'']) = [wine_a] \<and>
   POST_candidates latin1 (js ''Something over 15 euros'') [wine_a, wine_b, wine_c, wine_d]
     None = [wine_b, wine_d] \<and>
   POST_candidates latin1 (js ''A bottle for tonight'') [wine_a, wine_b, wine_c, wine_d]
     (Some [js ''b'']) = [wine_a, wine_c, wine_d]"
proof -
  have "POST_candidates latin1 (js ''a Red wine UNDER 15'') [wine_a, wine_b, wine_c, wine_d]
      (Some [js ''c'']) =
      filter (\<lambda>w. num_lt (parsePrice (Price w)) (parseFloat (js ''15'')))
        (filter (\<lambda>w. wine_id w \<notin> set [js ''c'']) [wine_a, wine_b, wine_c, wine_d])"
    using prefilter_cases [where U = latin1 and message = "js ''a Red wine UNDER 15''"
        and excludeIds = "Some [js ''c'']" and wines = "[wine_a, wine_b, wine_c, wine_d]"]
    unfolding latin1_lower_ascii q1_above q1_under by simp
  also have "\<dots> = [wine_a]"
    by (simp add: threshold_15 sample_ids sample_prices num_lt_def js_eq_iff)
  finally have 1: "POST_candidates latin1 (js ''a Red wine UNDER 15'')
      [wine_a, wine_b, wine_c, wine_d] (Some [js ''c'']) = [wine_a]" .
  have "POST_candidates latin1 (js ''Something over 15 euros'') [wine_a, wine_b, wine_c, wine_d]
      None =
      filter (\<lambda>w. num_gt (parsePrice (Price w)) (parseFloat (js ''15'')))
        [wine_a, wine_b, wine_c, wine_d]"
    using prefilter_cases [where U = latin1 and message = "js ''Something over 15 euros''"
        and excludeIds = None and wines = "[wine_a, wine_b, wine_c, wine_d]"]
    unfolding q2_lower q2_above by simp
  also have "\<dots> = [wine_b, wine_d]"
    by (simp add: threshold_15 sample_prices num_gt_def num_lt_def)
  finally have 2: "POST_candidates latin1 (js ''Something over 15 euros'')
      [wine_a, wine_b, wine_c, wine_d] None = [wine_b, wine_d]" .
  have "POST_candidates latin1 (js ''A bottle for tonight'') [wine_a, wine_b, wine_c, wine_d]
      (Some [js ''b'']) =
      filter (\<lambda>w. wine_id w \<notin> set [js ''b'']) [wine_a, wine_b, wine_c, wine_d]"
    using prefilter_cases [where U = latin1 and message = "js ''A bottle for tonight''"
        and excludeIds = "Some [js ''b'']" and wines = "[wine_a, wine_b, wine_c, wine_d]"]
      q3_premium
    unfolding q3_lower q3_above q3_under by simp
  also have "\<dots> = [wine_a, wine_c, wine_d]"
    by (simp add: sample_ids js_eq_iff)
  finally have 3: "POST_candidates latin1 (js ''A bottle for tonight'')
      [wine_a, wine_b, wine_c, wine_d] (Some [js ''b'']) = [wine_a, wine_c, wine_d]" .
  from 1 2 3 show ?thesis by simp
qed

lemma sample_sorted_prices:
  "sort_key num_key [Num (5623870034678907 / 562949953421312), Num 18, Num 14, Num 22] =
     [Num (5623870034678907 / 562949953421312), Num 14, Num 18, Num 22]"
  by simp

theorem premium_branch_nonempty_witness:
  "exclude_shown None [wine_a, wine_b, wine_c, wine_d] = [wine_a, wine_b, wine_c, wine_d] \<and>
   POST_candidates latin1 (js ''A Premium bottle'') [wine_a, wine_b, wine_c, wine_d] None = [wine_d] \<and>
   sort_key num_key (map (\<lambda>w. parsePrice (Price w)) [wine_a, wine_b, wine_c, wine_d]) ! 3 = Num 22"
proof -
  have c: "exclude_shown None [wine_a, wine_b, wine_c, wine_d] = [wine_a, wine_b, wine_c, wine_d]"
    by (simp add: exclude_shown_def)
  have s: "sort_key num_key (map (\<lambda>w. parsePrice (Price w)) [wine_a, wine_b, wine_c, wine_d]) =
      [Num (5623870034678907 / 562949953421312), Num 14, Num 18, Num 22]"
    using sample_sorted_prices by (simp add: sample_prices)
  have ne: "exclude_shown None [wine_a, wine_b, wine_c, wine_d] \<noteq> []"
    by (simp add: c)
  have "POST_candidates latin1 (js ''A Premium bottle'') [wine_a, wine_b, wine_c, wine_d] None =
      premium_filter (exclude_shown None [wine_a, wine_b, wine_c, wine_d])"
    using premium_branch_nonempty [where U = latin1 and message = "js ''A Premium bottle''"
        and excludeIds = None and wines = "[wine_a, wine_b, wine_c, wine_d]", OF ne]
      q4_above q4_under q4_premium
    unfolding q4_lower by simp
  also have "\<dots> = [wine_d]"
    unfolding c premium_filter_def s [unfolded list.map]
    by (simp add: sample_prices num_ge_def)
  finally show ?thesis
    using c s by simp
qed

section \<open>Price normalizer: totality and range\<close>

lemma bitlen_powi:
  assumes "0 < x"
  shows "(2::real) powi (bitlen x - 1) \<le> real_of_int x" and "real_of_int x < 2 powi bitlen x"
proof -
  have pos: "1 \<le> bitlen x"
    using assms by (simp add: bitlen_alt_def)
  from bitlen_bounds [OF assms]
  have b: "2 ^ nat (bitlen x - 1) \<le> x" "x < 2 ^ nat (bitlen x)"
    by simp_all
  have "(2::real) powi (bitlen x - 1) = 2 ^ nat (bitlen x - 1)"
    using pos by (simp add: power_int_nonneg_exp)
  also have "\<dots> = real_of_int (2 ^ nat (bitlen x - 1))"
    by simp
  also have "\<dots> \<le> real_of_int x"
    using b(1) by (simp only: of_int_le_iff)
  finally show "(2::real) powi (bitlen x - 1) \<le> real_of_int x" .
  have "real_of_int x < real_of_int (2 ^ nat (bitlen x))"
    using b(2) by (simp only: of_int_less_iff)
  also have "\<dots> = 2 powi bitlen x"
    using pos by (simp add: power_int_nonneg_exp)
  finally show "real_of_int x < 2 powi bitlen x" .
qed

lemma binary_exponent_test:
  assumes "0 < b"
  shows "(if 0 \<le> k then b * 2 ^ nat k \<le> a else b \<le> a * 2 ^ nat (- k)) \<longleftrightarrow>
         (2::real) powi k \<le> real a / real b"
proof (cases "0 \<le> k")
  case True
  have "b * 2 ^ nat k \<le> a \<longleftrightarrow> real (b * 2 ^ nat k) \<le> real a"
    by (simp only: of_nat_le_iff)
  also have "\<dots> \<longleftrightarrow> real b * 2 powi k \<le> real a"
    using True by (simp add: power_int_nonneg_exp)
  also have "\<dots> \<longleftrightarrow> 2 powi k \<le> real a / real b"
    using assms by (simp add: field_simps)
  finally show ?thesis using True by simp
next
  case False
  then have nk: "0 \<le> - k" by simp
  have "b \<le> a * 2 ^ nat (- k) \<longleftrightarrow> real b \<le> real (a * 2 ^ nat (- k))"
    by (simp only: of_nat_le_iff)
  also have "\<dots> \<longleftrightarrow> real b \<le> real a * 2 powi (- k)"
    using nk by (simp add: power_int_nonneg_exp)
  also have "\<dots> \<longleftrightarrow> real b * 2 powi k \<le> real a"
    by (simp add: power_int_minus field_simps)
  also have "\<dots> \<longleftrightarrow> 2 powi k \<le> real a / real b"
    using assms by (simp add: field_simps)
  finally show ?thesis using False by simp
qed

lemma binary_exponent_bounds:
  assumes "0 < a" and "0 < b"
  shows "(2::real) powi binary_exponent a b \<le> real a / real b"
    and "real a / real b < 2 powi (binary_exponent a b + 1)"
proof -
  define la lb where "la = bitlen (int a)" and "lb = bitlen (int b)"
  define k where "k = la - lb"
  have a: "(2::real) powi (la - 1) \<le> real a" "real a < 2 powi la"
    using bitlen_powi [of "int a"] assms(1) by (simp_all add: la_def)
  have b: "(2::real) powi (lb - 1) \<le> real b" "real b < 2 powi lb"
    using bitlen_powi [of "int b"] assms(2) by (simp_all add: lb_def)
  have bpos: "0 < real b" using assms(2) by simp
  have "real a / real b < 2 powi la / 2 powi (lb - 1)"
    by (rule frac_less) (use a b bpos in \<open>simp_all add: less_imp_le\<close>)
  also have "\<dots> = 2 powi (la - (lb - 1))"
    by (subst power_int_diff) simp_all
  also have "la - (lb - 1) = k + 1"
    by (simp add: k_def)
  finally have up: "real a / real b < 2 powi (k + 1)" .
  have "k - 1 = (la - 1) - lb"
    by (simp add: k_def)
  then have "(2::real) powi (k - 1) = 2 powi (la - 1) / 2 powi lb"
    by (simp only: power_int_diff [of "2::real" "la - 1" lb, simplified])
  also have "\<dots> \<le> real a / real b"
    by (rule frac_le) (use a b bpos in \<open>simp_all add: less_imp_le\<close>)
  finally have low: "(2::real) powi (k - 1) \<le> real a / real b" .
  have E: "binary_exponent a b = (if (2::real) powi k \<le> real a / real b then k else k - 1)"
    unfolding binary_exponent_def Let_def la_def [symmetric] lb_def [symmetric] k_def [symmetric]
    by (simp only: binary_exponent_test [OF assms(2)])
  show "(2::real) powi binary_exponent a b \<le> real a / real b"
    using low by (simp add: E)
  show "real a / real b < 2 powi (binary_exponent a b + 1)"
    using up by (auto simp: E not_le)
qed


lemma round_half_even_le: "round_half_even n d \<le> n div d + 1"
  by (simp add: round_half_even_def Let_def)

lemma to_double_finite:
  assumes b: "0 < b" and small: "a < 10 ^ 308 * b"
  shows "\<exists>q. to_double a b = Num q"
proof (cases "a = 0")
  case True
  then show ?thesis by (simp add: to_double_def)
next
  case False
  then have a: "0 < a" by simp
  define E where "E = binary_exponent a b"
  define e where "e = max E (- 1022)"
  define p where "p = e - 52"
  define m where "m = round_half_even (a * 2 ^ nat (- p)) (b * 2 ^ nat p)"
  have low: "(2::real) powi E \<le> real a / real b" and up: "real a / real b < 2 powi (E + 1)"
    using binary_exponent_bounds [OF a b] by (simp_all add: E_def)
  have bpos: "0 < real b" using b by simp
  have no_overflow: "m * 2 ^ nat p < 2 ^ 1024"
  proof (cases "p \<le> 0")
    case True
    have "real a / real b < 2 powi (e + 1)"
      using up by (rule less_le_trans) (simp add: e_def power_int_increasing)
    also have "e + 1 = 53 + p"
      by (simp add: p_def)
    also have "(2::real) powi (53 + p) = 2 ^ 53 * 2 powi p"
      by (subst power_int_add) simp_all
    finally have "real a < real b * (2 ^ 53 * 2 powi p)"
      using bpos by (simp add: field_simps)
    then have "real a * 2 powi (- p) < real b * 2 ^ 53"
      by (simp add: power_int_minus field_simps)
    also have "(2::real) powi (- p) = 2 ^ nat (- p)"
      using True by (simp add: power_int_nonneg_exp)
    finally have "real (a * 2 ^ nat (- p)) < real (2 ^ 53 * b)"
      by (simp add: mult.commute)
    then have "a * 2 ^ nat (- p) < 2 ^ 53 * b"
      by (simp only: of_nat_less_iff)
    then have "a * 2 ^ nat (- p) div b < 2 ^ 53"
      using b by (simp add: less_mult_imp_div_less)
    moreover have "m \<le> a * 2 ^ nat (- p) div b + 1"
      using True round_half_even_le [of "a * 2 ^ nat (- p)" b] by (simp add: m_def)
    ultimately have "m \<le> 2 ^ 53"
      by linarith
    also have "(2::nat) ^ 53 < 2 ^ 1024"
      by simp
    finally show ?thesis
      using True by simp
  next
    case False
    then have ppos: "0 < p" by simp
    then have eE: "e = E"
      by (auto simp: p_def e_def max_def split: if_splits)
    have "(2::real) powi E \<le> real a / real b"
      by (rule low)
    also have "\<dots> < 10 ^ 308"
    proof -
      have "real a < real (10 ^ 308 * b)"
        using small by (simp only: of_nat_less_iff)
      then show ?thesis
        using bpos by (simp add: field_simps)
    qed
    also have "\<dots> < (2::real) powi 1024"
      by simp
    finally have lt: "(2::real) powi E < 2 powi 1024" .
    have "E < 1024"
    proof (rule ccontr)
      assume "\<not> E < 1024"
      then have "1024 \<le> E" by simp
      then have "(2::real) powi 1024 \<le> 2 powi E"
        by (intro power_int_increasing) simp_all
      with lt show False by simp
    qed
    then have p971: "nat p \<le> 971"
      by (simp add: p_def eE)
    have "m \<le> a div (b * 2 ^ nat p) + 1"
      using ppos round_half_even_le [of a "b * 2 ^ nat p"] by (simp add: m_def)
    then have "m * 2 ^ nat p \<le> (a div (b * 2 ^ nat p) + 1) * 2 ^ nat p"
      by (rule mult_le_mono1)
    also have "\<dots> = a div b div 2 ^ nat p * 2 ^ nat p + 2 ^ nat p"
      by (simp add: div_mult2_eq algebra_simps)
    also have "\<dots> \<le> a div b + 2 ^ nat p"
      by simp
    also have "\<dots> < 10 ^ 308 + 2 ^ nat p"
      using small b by (simp add: less_mult_imp_div_less)
    also have "\<dots> \<le> 10 ^ 308 + 2 ^ 971"
      by (rule add_left_mono, rule power_increasing [OF p971]) simp
    also have "\<dots> \<le> (2::nat) ^ 1024"
      by simp
    finally show ?thesis .
  qed
  from no_overflow have "\<not> 2 ^ 1024 \<le> m * 2 ^ nat p"
    by (simp only: not_le)
  then have "to_double a b =
      Num (of_int (int (m * 2 ^ nat p)) / of_int (int (2 ^ nat (- p))))"
    unfolding to_double_def Let_def E_def [symmetric] e_def [symmetric] p_def [symmetric]
      m_def [symmetric]
    using False by (simp only: if_False)
  then show ?thesis ..
qed

lemma digits_val_bound:
  assumes "list_all is_digit ds"
  shows "digits_val ds < 10 ^ length ds"
proof -
  have "foldl (\<lambda>a c. 10 * a + (c - 48)) k ds < (k + 1) * 10 ^ length ds"
    if "list_all is_digit ds" for k
    using that
  proof (induction ds arbitrary: k)
    case Nil
    show ?case by simp
  next
    case (Cons d ds)
    from Cons.prems have ds: "list_all is_digit ds" and "is_digit d"
      by simp_all
    then have d: "d - 48 \<le> 9"
      unfolding is_digit_def by arith
    have "foldl (\<lambda>a c. 10 * a + (c - 48)) k (d # ds) =
          foldl (\<lambda>a c. 10 * a + (c - 48)) (10 * k + (d - 48)) ds"
      by simp
    also have "\<dots> < (10 * k + (d - 48) + 1) * 10 ^ length ds"
      by (rule Cons.IH [OF ds])
    also have "\<dots> \<le> (10 * k + 10) * 10 ^ length ds"
      using d by (intro mult_le_mono1) simp
    also have "\<dots> = (k + 1) * 10 ^ length (d # ds)"
      by (simp add: algebra_simps)
    finally show ?case .
  qed
  from this [OF assms, of 0] show ?thesis
    by (simp add: digits_val_def)
qed

lemma price_char_facts:
  assumes "price_char c"
  shows "\<not> is_space c" and "c \<noteq> 0x49" and "c \<noteq> 0x65" and "c \<noteq> 0x45" and "c \<noteq> 0x2B"
  using assms by (auto simp: price_char_def is_digit_def is_space_def)

lemma exponent_part_price:
  assumes "list_all price_char r"
  shows "exponent_part r = 0"
  using assms price_char_facts(3,4)
  by (cases r) (auto simp: exponent_part_def)

lemma startsWith_Infinity_price:
  assumes "list_all price_char u"
  shows "\<not> startsWith u (js ''Infinity'')"
  using assms price_char_facts(2)
  by (cases u) (auto simp: js_def)

lemma decimal_to_double_finite:
  assumes "mant < 10 ^ 308"
  shows "\<exists>q. decimal_to_double mant (- int k) = Num q"
proof (cases "k = 0")
  case True
  then show ?thesis
    using to_double_finite [of 1 mant] assms by (simp add: decimal_to_double_def)
next
  case False
  have "mant < 10 ^ 308 * 10 ^ k"
    using assms by (rule less_le_trans) simp
  then show ?thesis
    using to_double_finite [of "10 ^ k" mant] False by (simp add: decimal_to_double_def)
qed

lemma negate_finite: "\<exists>q. v = Num q \<Longrightarrow> \<exists>q. negate v = Num q"
  by auto

lemma parseFloat_price_finite:
  assumes chars: "list_all price_char u" and len: "length u \<le> 308"
  shows "parseFloat u = NaN \<or> (\<exists>q. parseFloat u = Num q)"
proof -
  have sp: "dropWhile is_space u = u"
    using chars price_char_facts(1) by (cases u) auto
  define u' where "u' = (if u \<noteq> [] \<and> (hd u = 0x2D \<or> hd u = 0x2B) then tl u else u)"
  define ip where "ip = takeWhile is_digit u'"
  define r1 where "r1 = dropWhile is_digit u'"
  define dot where "dot \<longleftrightarrow> r1 \<noteq> [] \<and> hd r1 = 0x2E"
  define fp where "fp = (if dot then takeWhile is_digit (tl r1) else [])"
  define r2 where "r2 = (if dot then dropWhile is_digit (tl r1) else r1)"
  have u'_sub: "set u' \<subseteq> set u" and u'_len: "length u' \<le> length u"
    by (auto simp: u'_def dest: list.set_sel(2))
  have u'_chars: "list_all price_char u'"
    using chars u'_sub by (auto simp: list_all_iff)
  have r1_sub: "set r1 \<subseteq> set u'"
    by (auto simp: r1_def dest: set_dropWhileD)
  have "set (dropWhile is_digit (tl r1)) \<subseteq> set r1"
    using set_dropWhileD [of _ is_digit "tl r1"] list.set_sel(2) [of r1]
    by (cases r1) auto
  then have "set r2 \<subseteq> set r1"
    by (simp add: r2_def)
  then have r2_chars: "list_all price_char r2"
    using u'_chars r1_sub by (auto simp: list_all_iff)
  have ex: "exponent_part r2 = 0"
    by (rule exponent_part_price [OF r2_chars])
  have inf: "\<not> startsWith u' (js ''Infinity'')"
    by (rule startsWith_Infinity_price [OF u'_chars])
  have digits: "list_all is_digit (ip @ fp)"
    by (auto simp: ip_def fp_def list_all_iff dest: set_takeWhileD)
  have "length ip + length r1 = length u'"
    unfolding ip_def r1_def
    by (metis length_append takeWhile_dropWhile_id)
  moreover have "length fp \<le> length r1"
    by (auto simp: fp_def intro: le_trans [OF length_takeWhile_le])
  ultimately have "length (ip @ fp) \<le> 308"
    using u'_len len by simp
  then have "(10::nat) ^ length (ip @ fp) \<le> 10 ^ 308"
    by (intro power_increasing) simp_all
  with digits_val_bound [OF digits] have mant: "digits_val (ip @ fp) < 10 ^ 308"
    by (rule less_le_trans)
  have v: "\<exists>q. decimal_to_double (digits_val (ip @ fp)) (- int (length fp)) = Num q"
    by (rule decimal_to_double_finite [OF mant])
  have pf: "parseFloat u =
      (if ip = [] \<and> fp = [] then NaN
       else if u \<noteq> [] \<and> hd u = 0x2D
         then negate (decimal_to_double (digits_val (ip @ fp)) (- int (length fp)))
         else decimal_to_double (digits_val (ip @ fp)) (- int (length fp)))"
    unfolding parseFloat_def sp Let_def u'_def [symmetric] ip_def [symmetric] r1_def [symmetric]
      dot_def [symmetric] fp_def [symmetric] r2_def [symmetric]
    using inf ex by simp
  show ?thesis
    unfolding pf using v negate_finite [OF v] by auto
qed

lemma digit_not_space: "is_digit c \<Longrightarrow> \<not> is_space c"
  by (auto simp: is_digit_def is_space_def)

lemma parseFloat_digits:
  assumes "ds \<noteq> []" and "list_all is_digit ds"
  shows "parseFloat ds = to_double (digits_val ds) 1"
proof -
  from assms obtain d r where ds: "ds = d # r" and d: "is_digit d"
    by (cases ds) auto
  have sp: "dropWhile is_space ds = ds"
    using d by (simp add: ds digit_not_space)
  have sign: "d \<noteq> 0x2D" "d \<noteq> 0x2B" "d \<noteq> 0x49"
    using d by (auto simp: is_digit_def)
  have inf: "\<not> startsWith ds (js ''Infinity'')"
    using sign by (simp add: ds js_def)
  have tk: "takeWhile is_digit ds = ds" "dropWhile is_digit ds = []"
    using assms(2) by (simp_all add: list_all_iff)
  show ?thesis
    unfolding parseFloat_def sp
    using inf sign tk assms(1)
    by (simp add: ds Let_def exponent_part_def decimal_to_double_def)
qed

lemma digits_val_nines: "digits_val (replicate n 0x39) = 10 ^ n - 1"
proof -
  have "Suc (foldl (\<lambda>a c. 10 * a + (c - 48)) k (replicate n (0x39::nat))) = (k + 1) * 10 ^ n" for k
  proof (induction n arbitrary: k)
    case 0
    show ?case by simp
  next
    case (Suc n)
    have "Suc (foldl (\<lambda>a c. 10 * a + (c - 48)) k (replicate (Suc n) (0x39::nat))) =
          Suc (foldl (\<lambda>a c. 10 * a + (c - 48)) (10 * k + 9) (replicate n (0x39::nat)))"
      by simp
    also have "\<dots> = (10 * k + 9 + 1) * 10 ^ n"
      by (rule Suc.IH)
    also have "\<dots> = (k + 1) * 10 ^ Suc n"
      by (simp add: algebra_simps)
    finally show ?case .
  qed
  from this [of 0] have "Suc (digits_val (replicate n 0x39)) = 10 ^ n"
    by (simp add: digits_val_def)
  then show ?thesis by arith
qed

lemma bitlen_nines: "bitlen (10 ^ 309 - 1) = 1027"
  by code_simp

lemma overflow: "to_double (10 ^ 309 - 1) 1 = PosInf"
  using bitlen_nines
  by (simp add: to_double_def binary_exponent_def round_half_even_def Let_def bitlen_one)

lemma replace_first_id: "a \<notin> set t \<Longrightarrow> replace_first a b t = t"
  by (induction t) auto


lemma replace_first_price:
  "list_all price_char t \<Longrightarrow> list_all price_char (replace_first 0x2C 0x2E t)"
  by (induction t) (auto simp: price_char_def)

lemma length_replace_first: "length (replace_first a b t) = length t"
  by (induction t) auto

lemma parsePrice_finite:
  assumes "length (price_chars s) \<le> 308"
  shows "\<exists>q. parsePrice s = Num q"
proof -
  let ?u = "replace_first 0x2C 0x2E (price_chars s)"
  have "list_all price_char (price_chars s)"
    by (simp add: price_chars_def list_all_iff)
  then have "list_all price_char ?u"
    by (rule replace_first_price)
  moreover have "length ?u \<le> 308"
    using assms by (simp add: length_replace_first)
  ultimately have "parseFloat ?u = NaN \<or> (\<exists>q. parseFloat ?u = Num q)"
    by (rule parseFloat_price_finite)
  then show ?thesis
    by (auto simp: parsePrice_def num_or_def)
qed

lemma parsePrice_euro:
  "parsePrice (js ''13,99 '' @ [0x20AC]) = to_double 1399 100"
proof -
  have 1: "price_chars (js ''13,99 '' @ [0x20AC]) = js ''13,99''"
    by (simp add: price_chars_def price_char_def js_def is_digit_def)
  have 2: "replace_first 0x2C 0x2E (js ''13,99'') = js ''13.99''"
    by (simp add: js_def)
  have 3: "parseFloat (js ''13.99'') = to_double 1399 100"
    by (simp add: parseFloat_eval)
  have 4: "to_double 1399 100 = Num (7875669848364155 / 562949953421312)"
    by (simp add: to_double_eval)
  show ?thesis
    using parsePrice_eval [OF 1 2 3] 4 by (simp add: num_or_def)
qed

lemma double_13_99: "to_double 1399 100 = Num (7875669848364155 / 562949953421312)"
  by (simp add: to_double_eval)

lemma parsePrice_na: "parsePrice (js ''n/a'') = Num 0"
proof -
  have 1: "price_chars (js ''n/a'') = []"
    by (simp add: price_chars_def price_char_def js_def is_digit_def)
  have 3: "parseFloat [] = NaN"
    by (simp add: parseFloat_def js_def)
  show ?thesis
    using parsePrice_eval [OF 1 _ 3] by (simp add: num_or_def)
qed

text \<open>
  C7 (amended). \<open>parsePrice\<close> is total and never returns \<open>NaN\<close>: it keeps the digits,
  commas, dots and minus signs, turns the first comma into a dot, parses the result as
  a float and returns 0 when that is unparseable. The result is finite whenever at most
  308 characters are kept. \<open>parsePrice("13,99 " + euro sign)\<close> is the double 13.99 and
  \<open>parsePrice("n/a")\<close> is 0.
\<close>

theorem parsePrice_total:
  "parsePrice s \<noteq> NaN \<and>
   parsePrice s =
     (if parseFloat (replace_first 0x2C 0x2E (filter price_char s)) = NaN then Num 0
      else parseFloat (replace_first 0x2C 0x2E (filter price_char s))) \<and>
   (length (filter price_char s) \<le> 308 \<longrightarrow> (\<exists>q. parsePrice s = Num q)) \<and>
   parsePrice (js ''13,99 '' @ [0x20AC]) = to_double 1399 100 \<and>
   to_double 1399 100 = Num (7875669848364155 / 562949953421312) \<and>
   parsePrice (js ''n/a'') = Num 0"
proof -
  have "parsePrice s =
     (if parseFloat (replace_first 0x2C 0x2E (filter price_char s)) = NaN then Num 0
      else parseFloat (replace_first 0x2C 0x2E (filter price_char s)))"
    by (simp add: parsePrice_def price_chars_def num_or_def)
  moreover have "length (filter price_char s) \<le> 308 \<longrightarrow> (\<exists>q. parsePrice s = Num q)"
    using parsePrice_finite [of s] by (simp add: price_chars_def)
  ultimately show ?thesis
    using parsePrice_not_NaN [of s] parsePrice_euro double_13_99 parsePrice_na by simp
qed

theorem parsePrice_total_witness:
  "length (filter price_char (js ''13,99 '' @ [0x20AC])) \<le> 308 \<and>
   parsePrice (js ''13,99 '' @ [0x20AC]) = Num (7875669848364155 / 562949953421312) \<and>
   parsePrice (js ''13,99 '' @ [0x20AC]) \<noteq> NaN"
proof -
  have l: "length (filter price_char (js ''13,99 '' @ [0x20AC])) \<le> 308"
    by (simp add: price_char_def js_def is_digit_def)
  from parsePrice_total [of "js ''13,99 '' @ [0x20AC]"]
  have n: "parsePrice (js ''13,99 '' @ [0x20AC]) \<noteq> NaN"
    and v: "parsePrice (js ''13,99 '' @ [0x20AC]) = to_double 1399 100"
    and d: "to_double 1399 100 = Num (7875669848364155 / 562949953421312)"
    by blast+
  from l v [unfolded d] n show ?thesis
    by (intro conjI)
qed

text \<open>
  The result is not always finite: 309 nines parse to a number beyond the largest
  double, and \<open>Infinity || 0\<close> is \<open>Infinity\<close>.
\<close>

theorem parsePrice_infinite_counterexample:
  "parsePrice (replicate 309 0x39) = PosInf"
proof -
  have 1: "price_chars (replicate 309 0x39) = replicate 309 0x39"
    by (simp add: price_chars_def price_char_def is_digit_def)
  have "0x2C \<notin> set (replicate 309 (0x39::nat))"
    by simp
  then have 2: "replace_first 0x2C 0x2E (replicate 309 0x39) = replicate 309 0x39"
    by (rule replace_first_id)
  have "parseFloat (replicate 309 0x39) = to_double (digits_val (replicate 309 0x39)) 1"
    by (rule parseFloat_digits) (simp_all add: list_all_iff is_digit_def)
  also have "\<dots> = to_double (10 ^ 309 - 1) 1"
    by (simp only: digits_val_nines)
  also have "\<dots> = PosInf"
    by (rule overflow)
  finally have 3: "parseFloat (replicate 309 0x39) = PosInf" .
  show ?thesis
    using parsePrice_eval [OF 1 2 3] by (simp add: num_or_def)
qed

section \<open>Degraded mode: the fallback answer\<close>

lemma startsWith_append: "startsWith s (p @ q) \<Longrightarrow> startsWith s p"
  by (induction s p rule: startsWith.induct) auto

lemma includes_append: "includes_str s (p @ q) \<Longrightarrow> includes_str s p"
  by (induction s) (auto dest: startsWith_append)

lemma includes_rose_ros: "includes_str s (js ''rose'') \<Longrightarrow> includes_str s (js ''ros'')"
  using includes_append [of s "js ''ros''" "js ''e''"] by (simp add: js_def)

lemma getSimpleFallback_cases:
  "getSimpleFallback U message wines =
     (let lower = toLowerCase U message;
          pick = (\<lambda>c. if 3 \<le> length (filter (has_color U c) wines)
                      then take 3 (filter (has_color U c) wines) else take 3 wines)
      in if includes_str lower (js ''red'') then pick (js ''red'')
         else if includes_str lower (js ''white'') then pick (js ''white'')
         else if includes_str lower (js ''ros'') then pick (js ''rose'')
         else if includes_str lower (js ''sparkling'') \<or> includes_str lower (js ''bubbl'')
           then pick (js ''sparkling'')
         else take 3 wines)"
  using includes_rose_ros [of "toLowerCase U message"]
  by (auto simp: getSimpleFallback_def Let_def)

text \<open>
  C6 (amended). Without a credential, or when the single completion call fails, the
  endpoint answers with the canned message of the language and with
  \<open>getSimpleFallback\<close> of the raw query and the whole catalog: the first 3 catalog
  items of the colour of the first keyword found (red, white, ros for rose, sparkling or
  bubbl for sparkling) when at least 3 items have that colour, and the first 3 items of
  the catalog otherwise. The completion service is called at most once.
\<close>

theorem degraded_mode:
  "POST U False generateText req = (degraded U req, 0) \<and>
   (generateText 0 = None \<longrightarrow> POST U True generateText req = (degraded U req, 1)) \<and>
   res_message (degraded U req) =
     generateFallbackResponse (req_message req) (req_wines req) (req_language req) \<and>
   res_recommendations (degraded U req) =
     (let lower = toLowerCase U (req_message req);
          pick = (\<lambda>c. if 3 \<le> length (filter (has_color U c) (req_wines req))
                      then take 3 (filter (has_color U c) (req_wines req))
                      else take 3 (req_wines req))
      in if includes_str lower (js ''red'') then pick (js ''red'')
         else if includes_str lower (js ''white'') then pick (js ''white'')
         else if includes_str lower (js ''ros'') then pick (js ''rose'')
         else if includes_str lower (js ''sparkling'') \<or> includes_str lower (js ''bubbl'')
           then pick (js ''sparkling'')
         else take 3 (req_wines req))"
proof -
  have "res_recommendations (degraded U req) = getSimpleFallback U (req_message req) (req_wines req)"
    by (simp add: degraded_def)
  then show ?thesis
    unfolding getSimpleFallback_cases
    by (simp add: POST_def degraded_def Let_def)
qed

lemma sample_colors:
  "has_color latin1 (js ''red'') wine_a" "\<not> has_color latin1 (js ''red'') wine_b"
  "has_color latin1 (js ''red'') wine_c" "\<not> has_color latin1 (js ''red'') wine_d"
  "has_color latin1 (js ''red'') wine_e"
  by (simp_all add: has_color_def wine_a_def wine_b_def wine_c_def wine_d_def wine_e_def
      wine_of_def latin1_def js_def lower_char_def)

lemma q5_lower: "toLowerCase latin1 (js ''I need a Red wine'') = js ''i need a red wine''"
  by (simp add: latin1_def js_def lower_char_def)

lemma q5_red: "includes_str (js ''i need a red wine'') (js ''red'')"
  by (simp add: js_def)

theorem degraded_mode_witness:
  "POST latin1 True (\<lambda>k. None)
     \<lparr>req_message = js ''I need a Red wine'', req_language = nl,
      req_wines = [wine_b, wine_a, wine_c, wine_d, wine_e], req_excludeIds = None\<rparr> =
   (\<lparr>res_message = js ''Op basis van uw voorkeuren zijn hier enkele uitstekende wijnopties uit onze Delhaize selectie. Deze wijnen zouden perfect zijn voor uw behoeften!'',
     res_recommendations = [wine_a, wine_c, wine_e]\<rparr>, 1)"
proof -
  let ?req = "\<lparr>req_message = js ''I need a Red wine'', req_language = nl,
      req_wines = [wine_b, wine_a, wine_c, wine_d, wine_e], req_excludeIds = None\<rparr>"
  from degraded_mode [of latin1 "\<lambda>k. None" ?req]
  have p: "POST latin1 True (\<lambda>k. None) ?req = (degraded latin1 ?req, 1)"
    and m: "res_message (degraded latin1 ?req) =
      generateFallbackResponse (req_message ?req) (req_wines ?req) (req_language ?req)"
    and r: "res_recommendations (degraded latin1 ?req) =
     (let lower = toLowerCase latin1 (req_message ?req);
          pick = (\<lambda>c. if 3 \<le> length (filter (has_color latin1 c) (req_wines ?req))
                      then take 3 (filter (has_color latin1 c) (req_wines ?req))
                      else take 3 (req_wines ?req))
      in if includes_str lower (js ''red'') then pick (js ''red'')
         else if includes_str lower (js ''white'') then pick (js ''white'')
         else if includes_str lower (js ''ros'') then pick (js ''rose'')
         else if includes_str lower (js ''sparkling'') \<or> includes_str lower (js ''bubbl'')
           then pick (js ''sparkling'')
         else take 3 (req_wines ?req))"
    by simp_all
  have r': "res_recommendations (degraded latin1 ?req) = [wine_a, wine_c, wine_e]"
    unfolding r by (simp add: q5_lower q5_red sample_colors Let_def)
  have m': "res_message (degraded latin1 ?req) = js ''Op basis van uw voorkeuren zijn hier enkele uitstekende wijnopties uit onze Delhaize selectie. Deze wijnen zouden perfect zijn voor uw behoeften!''"
    unfolding m by simp
  have "degraded latin1 ?req = \<lparr>res_message = res_message (degraded latin1 ?req),
      res_recommendations = res_recommendations (degraded latin1 ?req)\<rparr>"
    by (simp add: degraded_def)
  then show ?thesis
    unfolding p r' m' by simp
qed

text \<open>
  The recommendations are not always items of the colour asked for: with two red wines
  in the catalog, a query for red returns the first three items of the catalog, a white
  wine among them.
\<close>

theorem degraded_mode_counterexample:
  "res_recommendations (fst (POST latin1 False (\<lambda>k. None)
     \<lparr>req_message = js ''I need a Red wine'', req_language = en,
      req_wines = [wine_b, wine_a, wine_c, wine_d], req_excludeIds = None\<rparr>)) =
     [wine_b, wine_a, wine_c] \<and>
   filter (has_color latin1 (js ''red'')) [wine_b, wine_a, wine_c, wine_d] = [wine_a, wine_c] \<and>
   \<not> has_color latin1 (js ''red'') wine_b"
proof -
  have "getSimpleFallback latin1 (js ''I need a Red wine'') [wine_b, wine_a, wine_c, wine_d] =
      [wine_b, wine_a, wine_c]"
    unfolding getSimpleFallback_cases
    by (simp add: q5_lower q5_red sample_colors Let_def)
  then show ?thesis
    by (simp add: POST_def degraded_def Let_def sample_colors)
qed

section \<open>Recommendation extractor: never empty\<close>

lemma fill_slots_keeps: "recommendations \<noteq> [] \<Longrightarrow> fill_slots objs recommendations \<noteq> []"
proof (induction objs recommendations rule: fill_slots.induct)
  case (1 objs recommendations)
  show ?case
  proof (cases "length recommendations < 4 \<and> length recommendations < length objs")
    case False
    then show ?thesis
      using "1.prems" by (subst fill_slots.simps) auto
  next
    case True
    show ?thesis
    proof (cases "filter (\<lambda>w. w \<notin> set recommendations) objs")
      case Nil
      then show ?thesis
        using True "1.prems" by (subst fill_slots.simps) simp
    next
      case (Cons r rest)
      have "fill_slots objs (recommendations @ [r]) \<noteq> []"
        using "1.IH" [OF True Cons] by simp
      then show ?thesis
        using True Cons by (subst fill_slots.simps) simp
    qed
  qed
qed

lemma fill_slots_nonempty: "objs \<noteq> [] \<Longrightarrow> fill_slots objs recommendations \<noteq> []"
proof (cases "recommendations = []")
  case False
  then show ?thesis by (rule fill_slots_keeps)
next
  case True
  assume objs: "objs \<noteq> []"
  then obtain r rest where "objs = r # rest"
    by (cases objs) auto
  then have "fill_slots objs [] = fill_slots objs [r]"
    by (subst fill_slots.simps) simp
  also have "\<dots> \<noteq> []"
    by (rule fill_slots_keeps) simp
  finally show ?thesis
    using True by simp
qed

lemma getIntelligentFallback_nonempty:
  assumes "wines \<noteq> []"
  shows "getIntelligentFallback U wines \<noteq> []"
proof -
  have "zip [0..<length wines] wines \<noteq> []"
    using assms by (cases wines) (simp_all add: upt_rec)
  then have "fill_slots (zip [0..<length wines] wines) recs \<noteq> []" for recs
    by (rule fill_slots_nonempty)
  then show ?thesis
    by (simp add: getIntelligentFallback_def Let_def)
qed

lemma getIntelligentFallback_Nil: "getIntelligentFallback U [] = []"
  by (simp add: getIntelligentFallback_def fill_slots.simps [of "[]" "[]"])

lemma ids_layer_nonempty: "ids_layer response wines = Some found \<Longrightarrow> found \<noteq> []"
  by (auto simp: ids_layer_def Let_def split: option.splits if_splits)

lemma titles_layer_nonempty: "titles_layer U response wines = Some matched \<Longrightarrow> matched \<noteq> []"
  by (auto simp: titles_layer_def Let_def split: if_splits)

lemma names_layer_nonempty: "names_layer U response wines = Some recs \<Longrightarrow> recs \<noteq> []"
  by (auto simp: names_layer_def Let_def split: if_splits)

lemma map_filter_None: "(\<And>x. f x = None) \<Longrightarrow> List.map_filter f xs = []"
  by (induction xs) (simp_all add: List.map_filter_simps)

lemma ids_layer_Nil: "ids_layer response [] = None"
  by (simp add: ids_layer_def foundOrdered_def wineMap_def map_filter_None split: option.splits)

lemma titles_layer_Nil: "titles_layer U response [] = None"
  by (simp add: titles_layer_def matchedByTitle_def find_by_title_def map_filter_None)

lemma names_layer_Nil: "names_layer U response [] = None"
  by (simp add: names_layer_def recsByName_def)

text \<open>
  C2. The extractor returns no item for an empty candidate list, and at least one item
  for a non-empty one, whatever the reply text.
\<close>

theorem extract_nonempty:
  "extractRecommendationsFromResponse U response [] = [] \<and>
   (wines \<noteq> [] \<longrightarrow> extractRecommendationsFromResponse U response wines \<noteq> [])"
proof -
  have "extractRecommendationsFromResponse U response [] = []"
    by (simp add: extractRecommendationsFromResponse_def ids_layer_Nil titles_layer_Nil
        names_layer_Nil getIntelligentFallback_Nil)
  moreover have "extractRecommendationsFromResponse U response wines \<noteq> []" if "wines \<noteq> []"
    using that ids_layer_nonempty titles_layer_nonempty names_layer_nonempty
      getIntelligentFallback_nonempty [of wines U]
    by (auto simp: extractRecommendationsFromResponse_def split: option.splits)
  ultimately show ?thesis by simp
qed


lemmas layer_eval = id_section_at_def title_at_def js_def ascii_upper_def is_digit_def
  is_space_def is_line_terminator_def

lemma sample_names:
  "Product_name wine_a = js ''Merlot Reserve''" "Product_name wine_b = js ''Chablis''"
  "Product_name wine_c = js ''Merlot''" "Product_name wine_d = js ''Champagne Brut''"
  "Product_name wine_e = js ''Cabernet Franc''"
  by (simp_all add: wine_a_def wine_b_def wine_c_def wine_d_def wine_e_def wine_of_def)

lemma r1_ids: "ids_layer (js ''Enjoy!'') [wine_b] = None"
  by (simp add: ids_layer_def layer_eval)

lemma r1_titles: "titles_layer latin1 (js ''Enjoy!'') [wine_b] = None"
  by (simp add: titles_layer_def matchedByTitle_def List.map_filter_simps layer_eval)

lemma r1_names: "names_layer latin1 (js ''Enjoy!'') [wine_b] = None"
  by (simp add: names_layer_def recsByName_def name_in_reply_def sample_names latin1_def
      lower_char_def js_def)

lemma r1_fallback: "getIntelligentFallback latin1 [wine_b] = [wine_b]"
proof -
  have k: "\<not> name_has latin1 keys wine_b"
    if "keys \<in> {red_keys, white_keys, sparkling_keys, rose_keys}" for keys
    using that
    by (auto simp: name_has_def sample_names latin1_def lower_char_def js_def red_keys_def
        white_keys_def sparkling_keys_def rose_keys_def)
  have z: "zip [0..<length [wine_b]] [wine_b] = [(0, wine_b)]"
    by simp
  have "fill_slots [(0, wine_b)] [] = fill_slots [(0, wine_b)] [(0, wine_b)]"
    by (subst fill_slots.simps) simp
  also have "\<dots> = [(0, wine_b)]"
    by (subst fill_slots.simps) simp
  finally show ?thesis
    unfolding getIntelligentFallback_def z by (simp add: k Let_def)
qed

theorem extract_nonempty_witness:
  "[wine_b] \<noteq> [] \<and>
   extractRecommendationsFromResponse latin1 (js ''Enjoy!'') [wine_b] \<noteq> [] \<and>
   extractRecommendationsFromResponse latin1 (js ''Enjoy!'') [wine_b] = [wine_b] \<and>
   extractRecommendationsFromResponse latin1 (js ''Enjoy!'') [] = []"
proof -
  have ne: "[wine_b] \<noteq> []" by simp
  from extract_nonempty [of latin1 "js ''Enjoy!''" "[wine_b]"] ne
  have 1: "extractRecommendationsFromResponse latin1 (js ''Enjoy!'') [wine_b] \<noteq> []"
    and 2: "extractRecommendationsFromResponse latin1 (js ''Enjoy!'') [] = []"
    by blast+
  have 3: "extractRecommendationsFromResponse latin1 (js ''Enjoy!'') [wine_b] = [wine_b]"
    by (simp add: extractRecommendationsFromResponse_def r1_ids r1_titles r1_names r1_fallback)
  from ne 1 3 2 show ?thesis by (intro conjI)
qed

section \<open>Recommendation extractor: the list of ids\<close>

lemma wineMap_Some_iff:
  assumes "distinct (map wine_id wines)"
  shows "wineMap wines i = Some w \<longleftrightarrow> w \<in> set wines \<and> wine_id w = i"
proof -
  have "distinct (map fst (rev (map (\<lambda>w. (wine_id w, w)) wines)))"
    using assms by (simp add: rev_map [symmetric] comp_def distinct_rev)
  then have "map_of (rev (map (\<lambda>w. (wine_id w, w)) wines)) i = Some w \<longleftrightarrow>
      (i, w) \<in> set (rev (map (\<lambda>w. (wine_id w, w)) wines))"
    by (rule map_of_eq_Some_iff)
  then show ?thesis
    by (auto simp: wineMap_def)
qed

lemma wineMap_None_iff: "wineMap wines i = None \<longleftrightarrow> i \<notin> wine_id ` set wines"
  by (simp add: wineMap_def map_of_eq_None_iff image_image)

lemma filter_by_id:
  assumes "distinct (map wine_id wines)"
  shows "filter (\<lambda>w. wine_id w = i) wines =
         (case wineMap wines i of None \<Rightarrow> [] | Some w \<Rightarrow> [w])"
proof (cases "wineMap wines i")
  case None
  then have "i \<notin> wine_id ` set wines"
    by (simp add: wineMap_None_iff)
  then have "filter (\<lambda>w. wine_id w = i) wines = []"
    by (auto simp: filter_empty_conv)
  then show ?thesis
    using None by simp
next
  case (Some w)
  then have w: "w \<in> set wines" "wine_id w = i"
    using wineMap_Some_iff [OF assms] by simp_all
  have "filter (\<lambda>x. wine_id x = wine_id w) wines = [w]"
    using assms w(1)
  proof (induction wines)
    case Nil
    then show ?case by simp
  next
    case (Cons x xs)
    show ?case
    proof (cases "x = w")
      case True
      have "wine_id w \<notin> wine_id ` set xs"
        using Cons.prems(1) True by simp
      then have "filter (\<lambda>x. wine_id x = wine_id w) xs = []"
        by (auto simp: filter_empty_conv intro: rev_image_eqI)
      then show ?thesis
        using True by simp
    next
      case False
      then have "w \<in> set xs"
        using Cons.prems(2) by simp
      moreover from this have "wine_id x \<noteq> wine_id w"
        using Cons.prems(1) by auto
      ultimately show ?thesis
        using Cons.IH Cons.prems(1) by simp
    qed
  qed
  then show ?thesis
    using Some w(2) by simp
qed

lemma map_filter_concat:
  "List.map_filter f xs = concat (map (\<lambda>x. case f x of None \<Rightarrow> [] | Some y \<Rightarrow> [y]) xs)"
  by (induction xs) (simp_all add: List.map_filter_simps split: option.splits)

lemma foundOrdered_filter:
  assumes "distinct (map wine_id wines)"
  shows "foundOrdered ids wines = concat (map (\<lambda>i. filter (\<lambda>w. wine_id w = i) wines) ids)"
  by (simp add: foundOrdered_def map_filter_concat filter_by_id [OF assms])

lemma foundOrdered_ids:
  assumes "distinct (map wine_id wines)"
  shows "map wine_id (foundOrdered ids wines) = filter (\<lambda>i. i \<in> wine_id ` set wines) ids"
proof (induction ids)
  case Nil
  show ?case by (simp add: foundOrdered_def List.map_filter_simps)
next
  case (Cons i ids)
  show ?case
  proof (cases "wineMap wines i")
    case None
    then show ?thesis
      using Cons wineMap_None_iff [of wines i]
      by (simp add: foundOrdered_def List.map_filter_simps)
  next
    case (Some w)
    then have "w \<in> set wines" "wine_id w = i"
      using wineMap_Some_iff [OF assms] by simp_all
    then show ?thesis
      using Cons Some by (auto simp: foundOrdered_def List.map_filter_simps)
  qed
qed

lemma wineMap_permute:
  assumes "distinct (map wine_id wines)" and "distinct (map wine_id wines')"
    and "set wines' = set wines"
  shows "wineMap wines' = wineMap wines"
proof
  fix i
  show "wineMap wines' i = wineMap wines i"
  proof (cases "wineMap wines i")
    case None
    then show ?thesis
      using assms(3) wineMap_None_iff [of wines i] wineMap_None_iff [of wines' i] by simp
  next
    case (Some w)
    then show ?thesis
      using assms(3) wineMap_Some_iff [OF assms(1), of i w] wineMap_Some_iff [OF assms(2), of i w]
      by simp
  qed
qed

lemma extract_ids:
  assumes "match_id_section response = Some content"
    and "foundOrdered (parse_ids content) wines \<noteq> []"
  shows "extractRecommendationsFromResponse U response wines =
         take 8 (foundOrdered (parse_ids content) wines)"
  using assms by (simp add: extractRecommendationsFromResponse_def ids_layer_def Let_def)

text \<open>
  C1 (amended). When the reply has a marker line and at least one of its ids is the id
  of a candidate, the extractor returns the candidates named by the ids of the marker
  line, in the order of the marker line, without the unknown ids, at most 8 of them;
  the order of the candidate list does not matter. The ids are the pieces of the
  bracketed text between commas and white space, without double quotes. (When no id of
  the marker line is known, the later layers decide.)
\<close>

theorem ids_layer_order:
  assumes "match_id_section response = Some content"
    and "distinct (map wine_id wines)"
    and "\<exists>i \<in> set (parse_ids content). i \<in> wine_id ` set wines"
  shows "extractRecommendationsFromResponse U response wines =
           take 8 (concat (map (\<lambda>i. filter (\<lambda>w. wine_id w = i) wines) (parse_ids content))) \<and>
         map wine_id (extractRecommendationsFromResponse U response wines) =
           take 8 (filter (\<lambda>i. i \<in> wine_id ` set wines) (parse_ids content)) \<and>
         (\<forall>wines'. distinct (map wine_id wines') \<and> set wines' = set wines \<longrightarrow>
            extractRecommendationsFromResponse U response wines' =
            extractRecommendationsFromResponse U response wines)"
proof -
  have "filter (\<lambda>i. i \<in> wine_id ` set wines) (parse_ids content) \<noteq> []"
    using assms(3) by (auto simp: filter_empty_conv)
  then have ne: "foundOrdered (parse_ids content) wines \<noteq> []"
    using foundOrdered_ids [OF assms(2), of "parse_ids content"] by auto
  have e: "extractRecommendationsFromResponse U response wines =
      take 8 (foundOrdered (parse_ids content) wines)"
    by (rule extract_ids [OF assms(1) ne])
  have 1: "extractRecommendationsFromResponse U response wines =
      take 8 (concat (map (\<lambda>i. filter (\<lambda>w. wine_id w = i) wines) (parse_ids content)))"
    unfolding e by (simp only: foundOrdered_filter [OF assms(2)])
  have 2: "map wine_id (extractRecommendationsFromResponse U response wines) =
      take 8 (filter (\<lambda>i. i \<in> wine_id ` set wines) (parse_ids content))"
    unfolding e by (simp add: take_map [symmetric] foundOrdered_ids [OF assms(2)])
  have 3: "extractRecommendationsFromResponse U response wines' =
      extractRecommendationsFromResponse U response wines"
    if "distinct (map wine_id wines')" and "set wines' = set wines" for wines'
  proof -
    have "foundOrdered (parse_ids content) wines' = foundOrdered (parse_ids content) wines"
      by (simp add: foundOrdered_def wineMap_permute [OF assms(2) that])
    then show ?thesis
      using extract_ids [OF assms(1), of wines' U] ne e by simp
  qed
  from 1 2 3 show ?thesis by blast
qed


lemma content_with_ids:
  "match_id_section reply_with_ids =
     Some ([0x22] @ js ''c'' @ [0x22] @ js '', '' @ [0x22] @ js ''zz'' @ [0x22] @ js '', '' @
           [0x22] @ js ''a'' @ [0x22] @ js '', '' @ [0x22] @ js ''d'' @ [0x22])"
  by (simp add: reply_with_ids_def layer_eval)

lemma ids_with_ids:
  "parse_ids ([0x22] @ js ''c'' @ [0x22] @ js '', '' @ [0x22] @ js ''zz'' @ [0x22] @ js '', '' @
              [0x22] @ js ''a'' @ [0x22] @ js '', '' @ [0x22] @ js ''d'' @ [0x22]) =
     [js ''c'', js ''zz'', js ''a'', js ''d'']"
  by (simp add: parse_ids_def split_on.simps trim_def js_def is_space_def)

lemma sample_distinct:
  "distinct (map wine_id [wine_a, wine_b, wine_c, wine_d])"
  "distinct (map wine_id [wine_d, wine_c, wine_b, wine_a])"
  by (simp_all add: sample_ids js_eq_iff)

lemma sample_same_set:
  "set [wine_d, wine_c, wine_b, wine_a] = set [wine_a, wine_b, wine_c, wine_d]"
  by (simp add: insert_commute)

theorem ids_layer_order_witness:
  "extractRecommendationsFromResponse latin1 reply_with_ids [wine_a, wine_b, wine_c, wine_d] =
     [wine_c, wine_a, wine_d] \<and>
   extractRecommendationsFromResponse latin1 reply_with_ids [wine_d, wine_c, wine_b, wine_a] =
     [wine_c, wine_a, wine_d] \<and>
   map wine_id (extractRecommendationsFromResponse latin1 reply_with_ids
     [wine_a, wine_b, wine_c, wine_d]) = [js ''c'', js ''a'', js ''d'']"
proof -
  have "js ''c'' \<in> set [js ''c'', js ''zz'', js ''a'', js ''d'']"
    by simp
  moreover have "js ''c'' \<in> wine_id ` set [wine_a, wine_b, wine_c, wine_d]"
    by (simp add: sample_ids)
  ultimately have known: "\<exists>i \<in> set (parse_ids ([0x22] @ js ''c'' @ [0x22] @ js '', '' @
      [0x22] @ js ''zz'' @ [0x22] @ js '', '' @ [0x22] @ js ''a'' @ [0x22] @ js '', '' @
      [0x22] @ js ''d'' @ [0x22])).
      i \<in> wine_id ` set [wine_a, wine_b, wine_c, wine_d]"
    unfolding ids_with_ids by (rule bexI [rotated])
  note t = ids_layer_order [where U = latin1, OF content_with_ids sample_distinct(1) known,
      unfolded ids_with_ids]
  have 1: "extractRecommendationsFromResponse latin1 reply_with_ids
      [wine_a, wine_b, wine_c, wine_d] =
      take 8 (concat (map (\<lambda>i. filter (\<lambda>w. wine_id w = i) [wine_a, wine_b, wine_c, wine_d])
        [js ''c'', js ''zz'', js ''a'', js ''d'']))"
    by (rule t [THEN conjunct1])
  have 1: "extractRecommendationsFromResponse latin1 reply_with_ids
      [wine_a, wine_b, wine_c, wine_d] = [wine_c, wine_a, wine_d]"
    unfolding 1 by (simp add: sample_ids js_eq_iff)
  have 2: "extractRecommendationsFromResponse latin1 reply_with_ids
      [wine_d, wine_c, wine_b, wine_a] =
      extractRecommendationsFromResponse latin1 reply_with_ids [wine_a, wine_b, wine_c, wine_d]"
    by (rule t [THEN conjunct2, THEN conjunct2, rule_format])
      (rule conjI [OF sample_distinct(2) sample_same_set])
  have 3: "map wine_id [wine_c, wine_a, wine_d] = [js ''c'', js ''a'', js ''d'']"
    by (simp add: sample_ids)
  show ?thesis
    unfolding 2 1 3 by simp
qed

text \<open>
  When no id of the marker line is known, the result is not the (empty) list of the
  items that the ids resolve to: the later layers run, and here the category fallback
  returns a wine.
\<close>

theorem ids_layer_counterexample:
  "match_id_section reply_unknown_ids = Some (js ''zz'') \<and>
   parse_ids (js ''zz'') = [js ''zz''] \<and>
   foundOrdered [js ''zz''] [wine_c] = [] \<and>
   extractRecommendationsFromResponse latin1 reply_unknown_ids [wine_c] = [wine_c]"
proof -
  have 1: "match_id_section reply_unknown_ids = Some (js ''zz'')"
    by (simp add: reply_unknown_ids_def layer_eval)
  have 2: "parse_ids (js ''zz'') = [js ''zz'']"
    by (simp add: parse_ids_def split_on.simps trim_def js_def is_space_def)
  have 3: "foundOrdered [js ''zz''] [wine_c] = []"
    by (simp add: foundOrdered_def wineMap_def List.map_filter_simps sample_ids js_eq_iff)
  have i: "ids_layer reply_unknown_ids [wine_c] = None"
    by (simp add: ids_layer_def 1 2 3)
  have t: "titles_layer latin1 reply_unknown_ids [wine_c] = None"
    by (simp add: titles_layer_def matchedByTitle_def List.map_filter_simps
        reply_unknown_ids_def layer_eval)
  have n: "names_layer latin1 reply_unknown_ids [wine_c] = None"
    by (simp add: names_layer_def recsByName_def name_in_reply_def sample_names
        reply_unknown_ids_def latin1_def lower_char_def js_def)
  have red: "name_has latin1 red_keys wine_c"
    by (simp add: name_has_def sample_names latin1_def lower_char_def js_def red_keys_def)
  have other: "\<not> name_has latin1 keys wine_c"
    if "keys \<in> {white_keys, sparkling_keys, rose_keys}" for keys
    using that
    by (auto simp: name_has_def sample_names latin1_def lower_char_def js_def
        white_keys_def sparkling_keys_def rose_keys_def)
  have z: "zip [0..<length [wine_c]] [wine_c] = [(0, wine_c)]"
    by simp
  have f: "fill_slots [(0, wine_c)] [(0, wine_c)] = [(0, wine_c)]"
    by (subst fill_slots.simps) simp
  have g: "getIntelligentFallback latin1 [wine_c] = [wine_c]"
    unfolding getIntelligentFallback_def z by (simp add: red other Let_def f)
  have 4: "extractRecommendationsFromResponse latin1 reply_unknown_ids [wine_c] = [wine_c]"
    by (simp add: extractRecommendationsFromResponse_def i t n g)
  from 1 2 3 4 show ?thesis by (intro conjI)
qed

section \<open>Cart store: the invariant\<close>

lemma findIndex_SomeD:
  "findIndex P xs = Some i \<Longrightarrow> i < length xs \<and> P (xs ! i)"
  by (induction xs arbitrary: i) (auto split: if_splits option.splits)

lemma findIndex_None_iff:
  "findIndex P xs = None \<longleftrightarrow> (\<forall>x \<in> set xs. \<not> P x)"
  by (induction xs) (auto split: option.splits)

lemma num_ge_one_iff: "num_ge x (Num 1) \<longleftrightarrow> x = PosInf \<or> (\<exists>q. x = Num q \<and> 1 \<le> q)"
  by (cases x) (auto simp: num_ge_def)

lemma round_half_even_ge: "n div d \<le> round_half_even n d"
  by (simp add: round_half_even_def Let_def)

lemma to_double_ge_one:
  assumes b: "0 < b" and ab: "b \<le> a"
  shows "num_ge (to_double a b) (Num 1)"
proof -
  have a: "0 < a" using b ab by simp
  define E where "E = binary_exponent a b"
  define p where "p = E - 52"
  define m where "m = round_half_even (a * 2 ^ nat (- p)) (b * 2 ^ nat p)"
  have low: "(2::real) powi E \<le> real a / real b" and up: "real a / real b < 2 powi (E + 1)"
    using binary_exponent_bounds [OF a b] by (simp_all add: E_def)
  have bpos: "0 < real b" using b by simp
  have "(1::real) \<le> real a / real b"
    using ab bpos by simp
  with up have one: "(1::real) < 2 powi (E + 1)"
    by simp
  have E0: "0 \<le> E"
  proof (rule ccontr)
    assume "\<not> 0 \<le> E"
    then have "E + 1 \<le> 0" by simp
    then have "(2::real) powi (E + 1) \<le> 2 powi 0"
      by (intro power_int_increasing) simp_all
    with one show False by simp
  qed
  then have e: "max E (- 1022) = E"
    by simp
  have p52: "nat (- p) \<le> 52"
    using E0 by (simp add: p_def)
  have "real b * 2 powi E \<le> real a"
    using low bpos by (simp add: field_simps)
  also have "E = p + 52"
    by (simp add: p_def)
  also have "(2::real) powi (p + 52) = 2 powi p * 2 ^ 52"
    by (subst power_int_add) simp_all
  finally have r: "real b * 2 powi p * 2 ^ 52 \<le> real a"
    by (simp add: mult.assoc)
  have nat_le: "2 ^ 52 * (b * 2 ^ nat p) \<le> a * 2 ^ nat (- p)"
  proof (cases "0 \<le> p")
    case True
    then have "real (2 ^ 52 * (b * 2 ^ nat p)) \<le> real (a * 2 ^ nat (- p))"
      using r by (simp add: power_int_nonneg_exp mult_ac)
    then show ?thesis
      by (simp only: of_nat_le_iff)
  next
    case False
    then have np: "0 \<le> - p" and n0: "nat p = 0" by simp_all
    have "(2::real) powi p = 1 / 2 ^ nat (- p)"
      using np by (simp add: power_int_minus_divide [of "2::real" "- p", simplified]
          power_int_nonneg_exp)
    with r have "real b * 2 ^ 52 \<le> real a * 2 ^ nat (- p)"
      by (simp add: field_simps)
    then have "real (2 ^ 52 * (b * 2 ^ nat p)) \<le> real (a * 2 ^ nat (- p))"
      by (simp add: n0 mult_ac)
    then show ?thesis
      by (simp only: of_nat_le_iff)
  qed
  have dpos: "0 < b * 2 ^ nat p"
    using b by simp
  have "2 ^ 52 \<le> a * 2 ^ nat (- p) div (b * 2 ^ nat p)"
    using nat_le dpos by (simp add: less_eq_div_iff_mult_less_eq)
  also have "\<dots> \<le> m"
    unfolding m_def by (rule round_half_even_ge)
  finally have m52: "2 ^ 52 \<le> m" .
  have "(2::nat) ^ nat (- p) \<le> 2 ^ 52"
    by (rule power_increasing [OF p52]) simp
  also have "\<dots> \<le> m"
    by (rule m52)
  also have "\<dots> \<le> m * 2 ^ nat p"
    by simp
  finally have q: "2 ^ nat (- p) \<le> m * 2 ^ nat p" .
  have "(1::rat) \<le> of_int (int (m * 2 ^ nat p)) / of_int (int (2 ^ nat (- p)))"
  proof -
    have "(of_int (int (2 ^ nat (- p))) :: rat) \<le> of_int (int (m * 2 ^ nat p))"
      using q by (simp only: of_int_le_iff of_nat_le_iff)
    moreover have "(0::rat) < of_int (int (2 ^ nat (- p)))"
      by simp
    ultimately show ?thesis
      by (simp only: le_divide_eq_1_pos)
  qed
  then show ?thesis
    using a
    unfolding to_double_def Let_def E_def [symmetric] e p_def [symmetric] m_def [symmetric]
    by (simp add: num_ge_one_iff)
qed


lemma round_rat_ge_one:
  assumes "1 \<le> r"
  shows "num_ge (round_rat r) (Num 1)"
proof -
  obtain n d where nd: "quotient_of r = (n, d)"
    by (cases "quotient_of r")
  have d: "0 < d"
    using quotient_of_denom_pos [OF nd] .
  have r: "r = of_int n / of_int d"
    using quotient_of_div [OF nd] .
  have "(of_int d :: rat) \<le> of_int n"
    using assms d unfolding r by (simp add: le_divide_eq)
  then have n: "d \<le> n"
    by (simp only: of_int_le_iff)
  have "num_ge (to_double (nat n) (nat d)) (Num 1)"
    by (rule to_double_ge_one) (use d n in simp_all)
  then show ?thesis
    using d n by (simp add: round_rat_def nd)
qed

lemma num_add_ge_one:
  assumes "num_ge x (Num 1)" and "num_ge y (Num 1)"
  shows "num_ge (num_add x y) (Num 1)"
proof -
  from assms consider "x = PosInf" "y = PosInf"
    | q where "x = PosInf" "y = Num q"
    | q where "x = Num q" "y = PosInf"
    | q q' where "x = Num q" "1 \<le> q" "y = Num q'" "1 \<le> q'"
    by (auto simp: num_ge_one_iff)
  then show ?thesis
  proof cases
    case 4
    then have "1 \<le> q + q'" by simp
    then show ?thesis
      using 4 by (simp add: round_rat_ge_one)
  qed (simp_all add: num_ge_one_iff)
qed

lemma urls_list_update:
  "i < length items \<Longrightarrow> URL (wine c) = URL (wine (items ! i)) \<Longrightarrow>
   map (\<lambda>it. URL (wine it)) (items[i := c]) = map (\<lambda>it. URL (wine it)) items"
  by (simp add: map_update list_update_same_conv)

lemma addItem_urls:
  "distinct (map (\<lambda>it. URL (wine it)) items) \<Longrightarrow>
   distinct (map (\<lambda>it. URL (wine it)) (snd (addItem now w q items)))"
  by (auto simp: addItem_def urls_list_update findIndex_None_iff
      split: option.splits dest!: findIndex_SomeD)

lemma addItem_length:
  "length items \<le> MAX_CART_ITEMS \<Longrightarrow> length (snd (addItem now w q items)) \<le> MAX_CART_ITEMS"
  by (auto simp: addItem_def split: option.splits)

lemma addItem_quantity:
  assumes inv: "\<forall>it \<in> set items. num_ge (quantity it) (Num 1)" and q: "num_ge q (Num 1)"
  shows "\<forall>it \<in> set (snd (addItem now w q items)). num_ge (quantity it) (Num 1)"
proof -
  have nth: "num_ge (num_add (quantity (items ! i)) q) (Num 1)" if "i < length items" for i
    using inv that q by (simp add: nth_mem num_add_ge_one)
  show ?thesis
    using inv q
    by (auto simp: addItem_def split: option.splits
        dest!: findIndex_SomeD set_update_subset_insert[THEN subsetD] dest: nth)
qed

lemma removeItem_inv:
  "distinct (map (\<lambda>it. URL (wine it)) items) \<Longrightarrow>
   distinct (map (\<lambda>it. URL (wine it)) (removeItem u items))"
  "length items \<le> MAX_CART_ITEMS \<Longrightarrow> length (removeItem u items) \<le> MAX_CART_ITEMS"
  "\<forall>it \<in> set items. P (quantity it) \<Longrightarrow> \<forall>it \<in> set (removeItem u items). P (quantity it)"
  by (auto simp: removeItem_def distinct_map_filter intro: le_trans[OF length_filter_le])

lemma updateQuantity_urls:
  "distinct (map (\<lambda>it. URL (wine it)) items) \<Longrightarrow>
   distinct (map (\<lambda>it. URL (wine it)) (updateQuantity u q items))"
  by (auto simp: updateQuantity_def urls_list_update removeItem_inv
      split: option.splits dest!: findIndex_SomeD)

lemma updateQuantity_length:
  "length items \<le> MAX_CART_ITEMS \<Longrightarrow> length (updateQuantity u q items) \<le> MAX_CART_ITEMS"
  by (auto simp: updateQuantity_def removeItem_inv split: option.splits)

lemma updateQuantity_quantity:
  assumes inv: "\<forall>it \<in> set items. num_ge (quantity it) (Num 1)"
    and q: "num_le q (Num 0) \<or> num_ge q (Num 1)"
  shows "\<forall>it \<in> set (updateQuantity u q items). num_ge (quantity it) (Num 1)"
  using inv q removeItem_inv(3) [of items "\<lambda>x. num_ge x (Num 1)" u]
  by (auto simp: updateQuantity_def split: option.splits
      dest!: findIndex_SomeD set_update_subset_insert[THEN subsetD])

text \<open>
  C9 (amended). Every cart that \<open>addItem\<close>, \<open>removeItem\<close> and \<open>updateQuantity\<close> reach
  from the empty cart holds at most one entry per wine URL and at most
  \<open>MAX_CART_ITEMS\<close> entries. The cart keeps no quantity within 1..10 by itself: every
  entry's quantity is at least 1 when every number passed to \<open>addItem\<close> is at least 1
  and every number passed to \<open>updateQuantity\<close> is at most 0 (which removes the entry)
  or at least 1; no upper bound holds.
\<close>

theorem cart_invariant:
  "cart_reachable A B items \<Longrightarrow>
   distinct (map (\<lambda>it. URL (wine it)) items) \<and>
   length items \<le> MAX_CART_ITEMS \<and>
   ((\<forall>q \<in> A. num_ge q (Num 1)) \<and> (\<forall>q \<in> B. num_le q (Num 0) \<or> num_ge q (Num 1)) \<longrightarrow>
      (\<forall>it \<in> set items. num_ge (quantity it) (Num 1)))"
proof (induction rule: cart_reachable.induct)
  case empty_cart
  show ?case by simp
next
  case (after_add items q now w)
  then show ?case
    using addItem_urls addItem_length addItem_quantity by blast
next
  case (after_remove items u)
  then show ?case
    using removeItem_inv(1,2) removeItem_inv(3) [of items "\<lambda>x. num_ge x (Num 1)" u] by blast
next
  case (after_update items q u)
  then show ?case
    using updateQuantity_urls updateQuantity_length updateQuantity_quantity by blast
qed


lemma small_sums:
  "num_add (Num 1) (Num 1) = Num 2"
  "num_add (Num 2) (Num 1) = Num 3"
  "num_add (Num 3) (Num 1) = Num 4"
  "num_add (Num 4) (Num 1) = Num 5"
  "num_add (Num 5) (Num 1) = Num 6"
  "num_add (Num 6) (Num 1) = Num 7"
  "num_add (Num 7) (Num 1) = Num 8"
  "num_add (Num 8) (Num 1) = Num 9"
  "num_add (Num 9) (Num 1) = Num 10"
  "num_add (Num 10) (Num 1) = Num 11"
  by (simp_all add: round_rat_def to_double_eval)

lemma cart_reachable_add_many:
  "cart_reachable A B items \<Longrightarrow> q \<in> A \<Longrightarrow>
   cart_reachable A B (((\<lambda>c. snd (addItem now w q c)) ^^ n) items)"
  by (induction n) (auto intro: cart_reachable.after_add)

theorem cart_invariant_witness:
  "cart_reachable {Num 1} {Num 3}
     (updateQuantity (js ''https://shop/w1'') (Num 3)
        (snd (addItem 0 wine_w1 (Num 1) (snd (addItem 0 wine_w1 (Num 1) []))))) \<and>
   num_ge (Num 1) (Num 1) \<and> num_ge (Num 3) (Num 1) \<and>
   map quantity
     (updateQuantity (js ''https://shop/w1'') (Num 3)
        (snd (addItem 0 wine_w1 (Num 1) (snd (addItem 0 wine_w1 (Num 1) []))))) = [Num 3] \<and>
   distinct (map (\<lambda>it. URL (wine it))
     (updateQuantity (js ''https://shop/w1'') (Num 3)
        (snd (addItem 0 wine_w1 (Num 1) (snd (addItem 0 wine_w1 (Num 1) [])))))) \<and>
   length
     (updateQuantity (js ''https://shop/w1'') (Num 3)
        (snd (addItem 0 wine_w1 (Num 1) (snd (addItem 0 wine_w1 (Num 1) []))))) \<le> MAX_CART_ITEMS \<and>
   list_all (\<lambda>it. num_ge (quantity it) (Num 1))
     (updateQuantity (js ''https://shop/w1'') (Num 3)
        (snd (addItem 0 wine_w1 (Num 1) (snd (addItem 0 wine_w1 (Num 1) [])))))"
proof -
  let ?c = "updateQuantity (js ''https://shop/w1'') (Num 3)
        (snd (addItem 0 wine_w1 (Num 1) (snd (addItem 0 wine_w1 (Num 1) []))))"
  have r: "cart_reachable {Num 1} {Num 3} ?c"
    by (intro after_update after_add empty_cart) simp_all
  have g: "num_ge (Num 1) (Num 1)" "num_ge (Num 3) (Num 1)"
    by (simp_all add: num_ge_def)
  have u: "URL wine_w1 = js ''https://shop/w1''"
    by (simp add: wine_w1_def wine_of_def)
  have v: "map quantity ?c = [Num 3]"
    using small_sums(1)
    by (simp add: addItem_def updateQuantity_def MAX_CART_ITEMS_def u num_le_def num_ge_def)
  from cart_invariant [OF r] g
  have "distinct (map (\<lambda>it. URL (wine it)) ?c)" and "length ?c \<le> MAX_CART_ITEMS"
    and "\<forall>it \<in> set ?c. num_ge (quantity it) (Num 1)"
    by simp_all
  with r g v show ?thesis
    by (simp add: list_all_iff)
qed

text \<open>
  The range 1..10 holds at neither end. Adding the same wine eleven times with the
  default quantity 1 leaves one entry of quantity 11, and so does \<open>updateQuantity\<close> with
  11; \<open>addItem\<close> with 0 leaves an entry of quantity 0, and \<open>updateQuantity\<close> stores 0.5
  and \<open>NaN\<close>, for which \<open>quantity <= 0\<close> is false.
\<close>

theorem cart_quantity_counterexample:
  "cart_reachable {Num 1} {}
     (((\<lambda>c. snd (addItem 0 wine_w1 (Num 1) c)) ^^ 11) []) \<and>
   map quantity
     (((\<lambda>c. snd (addItem 0 wine_w1 (Num 1) c)) ^^ 11) []) = [Num 11] \<and>
   cart_reachable {Num 1} {Num 11, Num (1 / 2), NaN}
     (updateQuantity (js ''https://shop/w1'') (Num 11) (snd (addItem 0 wine_w1 (Num 1) []))) \<and>
   map quantity
     (updateQuantity (js ''https://shop/w1'') (Num 11) (snd (addItem 0 wine_w1 (Num 1) []))) =
     [Num 11] \<and>
   \<not> num_le (Num 11) (Num 10) \<and>
   cart_reachable {Num 0} {} (snd (addItem 0 wine_w1 (Num 0) [])) \<and>
   map quantity (snd (addItem 0 wine_w1 (Num 0) [])) = [Num 0] \<and>
   \<not> num_ge (Num 0) (Num 1) \<and>
   cart_reachable {Num 1} {Num 11, Num (1 / 2), NaN}
     (updateQuantity (js ''https://shop/w1'') (Num (1 / 2)) (snd (addItem 0 wine_w1 (Num 1) []))) \<and>
   map quantity
     (updateQuantity (js ''https://shop/w1'') (Num (1 / 2)) (snd (addItem 0 wine_w1 (Num 1) []))) =
     [Num (1 / 2)] \<and>
   \<not> num_ge (Num (1 / 2)) (Num 1) \<and>
   cart_reachable {Num 1} {Num 11, Num (1 / 2), NaN}
     (updateQuantity (js ''https://shop/w1'') NaN (snd (addItem 0 wine_w1 (Num 1) []))) \<and>
   map quantity
     (updateQuantity (js ''https://shop/w1'') NaN (snd (addItem 0 wine_w1 (Num 1) []))) = [NaN] \<and>
   \<not> num_ge NaN (Num 1)"
proof -
  note sums = small_sums
  have s1: "snd (addItem 0 wine_w1 (Num 1) []) =
      [\<lparr>wine = wine_w1, quantity = Num 1, addedAt = 0\<rparr>]"
    by (simp add: addItem_def MAX_CART_ITEMS_def)
  have s2: "snd (addItem 0 wine_w1 (Num 1)
      [\<lparr>wine = wine_w1, quantity = Num 1, addedAt = 0\<rparr>]) =
      [\<lparr>wine = wine_w1, quantity = Num 2, addedAt = 0\<rparr>]"
    using sums by (simp add: addItem_def)
  have s3: "snd (addItem 0 wine_w1 (Num 1)
      [\<lparr>wine = wine_w1, quantity = Num 2, addedAt = 0\<rparr>]) =
      [\<lparr>wine = wine_w1, quantity = Num 3, addedAt = 0\<rparr>]"
    using sums by (simp add: addItem_def)
  have s4: "snd (addItem 0 wine_w1 (Num 1)
      [\<lparr>wine = wine_w1, quantity = Num 3, addedAt = 0\<rparr>]) =
      [\<lparr>wine = wine_w1, quantity = Num 4, addedAt = 0\<rparr>]"
    using sums by (simp add: addItem_def)
  have s5: "snd (addItem 0 wine_w1 (Num 1)
      [\<lparr>wine = wine_w1, quantity = Num 4, addedAt = 0\<rparr>]) =
      [\<lparr>wine = wine_w1, quantity = Num 5, addedAt = 0\<rparr>]"
    using sums by (simp add: addItem_def)
  have s6: "snd (addItem 0 wine_w1 (Num 1)
      [\<lparr>wine = wine_w1, quantity = Num 5, addedAt = 0\<rparr>]) =
      [\<lparr>wine = wine_w1, quantity = Num 6, addedAt = 0\<rparr>]"
    using sums by (simp add: addItem_def)
  have s7: "snd (addItem 0 wine_w1 (Num 1)
      [\<lparr>wine = wine_w1, quantity = Num 6, addedAt = 0\<rparr>]) =
      [\<lparr>wine = wine_w1, quantity = Num 7, addedAt = 0\<rparr>]"
    using sums by (simp add: addItem_def)
  have s8: "snd (addItem 0 wine_w1 (Num 1)
      [\<lparr>wine = wine_w1, quantity = Num 7, addedAt = 0\<rparr>]) =
      [\<lparr>wine = wine_w1, quantity = Num 8, addedAt = 0\<rparr>]"
    using sums by (simp add: addItem_def)
  have s9: "snd (addItem 0 wine_w1 (Num 1)
      [\<lparr>wine = wine_w1, quantity = Num 8, addedAt = 0\<rparr>]) =
      [\<lparr>wine = wine_w1, quantity = Num 9, addedAt = 0\<rparr>]"
    using sums by (simp add: addItem_def)
  have s10: "snd (addItem 0 wine_w1 (Num 1)
      [\<lparr>wine = wine_w1, quantity = Num 9, addedAt = 0\<rparr>]) =
      [\<lparr>wine = wine_w1, quantity = Num 10, addedAt = 0\<rparr>]"
    using sums by (simp add: addItem_def)
  have s11: "snd (addItem 0 wine_w1 (Num 1)
      [\<lparr>wine = wine_w1, quantity = Num 10, addedAt = 0\<rparr>]) =
      [\<lparr>wine = wine_w1, quantity = Num 11, addedAt = 0\<rparr>]"
    using sums by (simp add: addItem_def)
  have a: "cart_reachable {Num 1} {}
     (((\<lambda>c. snd (addItem 0 wine_w1 (Num 1) c)) ^^ 11) [])"
    by (rule cart_reachable_add_many [OF empty_cart]) simp
  have b: "((\<lambda>c. snd (addItem 0 wine_w1 (Num 1) c)) ^^ 11) [] =
      [\<lparr>wine = wine_w1, quantity = Num 11, addedAt = 0\<rparr>]"
  proof -
    have e: "(11::nat) = Suc (Suc (Suc (Suc (Suc (Suc (Suc (Suc (Suc (Suc (Suc (0)))))))))))"
      by simp
    show ?thesis
      unfolding e by (simp only: funpow.simps o_apply id_apply s1 s2 s3 s4 s5 s6 s7 s8 s9 s10 s11)
  qed
  have r1: "cart_reachable {Num 1} {Num 11, Num (1 / 2), NaN} (snd (addItem 0 wine_w1 (Num 1) []))"
    by (rule after_add [OF empty_cart]) simp
  have u: "URL wine_w1 = js ''https://shop/w1''"
    by (simp add: wine_w1_def wine_of_def)
  have c: "map quantity
     (updateQuantity (js ''https://shop/w1'') (Num 11) (snd (addItem 0 wine_w1 (Num 1) []))) =
     [Num 11]"
    unfolding s1 by (simp add: updateQuantity_def u num_le_def num_ge_def)
  have d: "map quantity
     (updateQuantity (js ''https://shop/w1'') (Num (1 / 2)) (snd (addItem 0 wine_w1 (Num 1) []))) =
     [Num (1 / 2)]"
    unfolding s1 by (simp add: updateQuantity_def u num_le_def num_ge_def)
  have e: "map quantity
     (updateQuantity (js ''https://shop/w1'') NaN (snd (addItem 0 wine_w1 (Num 1) []))) = [NaN]"
    unfolding s1 by (simp add: updateQuantity_def u num_le_def num_ge_def)
  have z: "cart_reachable {Num 0} {} (snd (addItem 0 wine_w1 (Num 0) []))"
    by (rule after_add [OF empty_cart]) simp
  have z': "map quantity (snd (addItem 0 wine_w1 (Num 0) [])) = [Num 0]"
    by (simp add: addItem_def MAX_CART_ITEMS_def)
  have n: "\<not> num_le (Num 11) (Num 10)" "\<not> num_ge (Num 0) (Num 1)"
    "\<not> num_ge (Num (1 / 2)) (Num 1)" "\<not> num_ge NaN (Num 1)"
    by (simp_all add: num_le_def num_ge_def)
  have ru: "cart_reachable {Num 1} {Num 11, Num (1 / 2), NaN}
      (updateQuantity (js ''https://shop/w1'') q (snd (addItem 0 wine_w1 (Num 1) [])))"
    if "q \<in> {Num 11, Num (1 / 2), NaN}" for q
    by (rule after_update [OF r1 that])
  have ru11: "cart_reachable {Num 1} {Num 11, Num (1 / 2), NaN}
      (updateQuantity (js ''https://shop/w1'') (Num 11) (snd (addItem 0 wine_w1 (Num 1) [])))"
    by (rule ru) simp
  have ruh: "cart_reachable {Num 1} {Num 11, Num (1 / 2), NaN}
      (updateQuantity (js ''https://shop/w1'') (Num (1 / 2)) (snd (addItem 0 wine_w1 (Num 1) [])))"
    by (rule ru) simp
  have run: "cart_reachable {Num 1} {Num 11, Num (1 / 2), NaN}
      (updateQuantity (js ''https://shop/w1'') NaN (snd (addItem 0 wine_w1 (Num 1) [])))"
    by (rule ru) simp
  have b': "map quantity (((\<lambda>c. snd (addItem 0 wine_w1 (Num 1) c)) ^^ 11) []) = [Num 11]"
    unfolding b by simp
  from a b' ru11 c n(1) z z' n(2) ruh d n(3) run e n(4) show ?thesis
    by (intro conjI)
qed

section \<open>Chat controller: pages of four\<close>

lemma paging_length: "paging st \<Longrightarrow> length (shownIds st) \<le> length (lastRecs st)"
proof -
  assume "paging st"
  then have "length (shownIds st) = length (map wine_id (take (length (shownIds st)) (lastRecs st)))"
    by (simp add: paging_def)
  then show ?thesis
    by simp
qed

lemma handleShowMore_empty:
  "take 4 (drop (length (shownIds st)) (lastRecs st)) = [] \<Longrightarrow> handleShowMore st = st"
  by (simp add: handleShowMore_def Let_def)

lemma handleShowMore_batch:
  assumes "take 4 (drop (length (shownIds st)) (lastRecs st)) \<noteq> []"
  shows "handleShowMore st =
     st\<lparr>messages := messages st @
            recommendations_message (take 4 (drop (length (shownIds st)) (lastRecs st)))
              (length (shownIds st)) #
            (if length (shownIds st) +
                length (take 4 (drop (length (shownIds st)) (lastRecs st))) < length (lastRecs st)
             then [show_more_message] else []),
        shownIds := shownIds st @
            map wine_id (take 4 (drop (length (shownIds st)) (lastRecs st)))\<rparr>"
  using assms by (simp add: handleShowMore_def Let_def)

lemma handleShowMore_fields:
  "shownIds (handleShowMore st) =
     shownIds st @ map wine_id (take 4 (drop (length (shownIds st)) (lastRecs st)))"
  "lastRecs (handleShowMore st) = lastRecs st"
  "requests (handleShowMore st) = requests st"
  by (simp_all add: handleShowMore_def Let_def)

lemma paging_step:
  assumes "paging st"
  shows "paging (handleShowMore st)"
proof -
  let ?k = "length (shownIds st)" and ?L = "lastRecs st"
  let ?st' = "handleShowMore st"
  have s: "shownIds st = map wine_id (take ?k ?L)"
    using assms by (simp add: paging_def)
  have "shownIds ?st' = shownIds st @ map wine_id (take 4 (drop ?k ?L))"
    by (rule handleShowMore_fields(1))
  also have "\<dots> = map wine_id (take ?k ?L) @ map wine_id (take 4 (drop ?k ?L))"
    by (subst s) (rule refl)
  also have "\<dots> = map wine_id (take (?k + 4) ?L)"
    by (simp add: take_add)
  finally have n: "shownIds ?st' = map wine_id (take (?k + 4) ?L)" .
  have len: "length (shownIds ?st') = min (length ?L) (?k + 4)"
    by (simp only: n length_map length_take)
  have tk: "take (min (length ?L) (?k + 4)) ?L = take (?k + 4) ?L"
    by (simp add: min_def)
  have "map wine_id (take (length (shownIds ?st')) (lastRecs ?st')) =
        map wine_id (take (min (length ?L) (?k + 4)) ?L)"
    by (simp only: len handleShowMore_fields(2))
  also have "\<dots> = map wine_id (take (?k + 4) ?L)"
    by (simp only: tk)
  also have "\<dots> = shownIds ?st'"
    by (simp only: n)
  finally show ?thesis
    unfolding paging_def by (rule sym)
qed

lemma batch_fresh:
  assumes "paging st" and "distinct (map wine_id (lastRecs st))"
  shows "set (map wine_id (take 4 (drop (length (shownIds st)) (lastRecs st)))) \<inter>
         set (shownIds st) = {}"
proof -
  let ?k = "length (shownIds st)" and ?L = "lastRecs st"
  have s: "shownIds st = map wine_id (take ?k ?L)"
    using assms(1) by (simp add: paging_def)
  have s': "set (shownIds st) = set (map wine_id (take ?k ?L))"
    by (rule arg_cong [OF s, of set])
  have "distinct (map wine_id (take ?k ?L @ drop ?k ?L))"
    using assms(2) by simp
  then have "distinct (map wine_id (take ?k ?L) @ map wine_id (drop ?k ?L))"
    by (simp only: map_append)
  then have d: "set (map wine_id (take ?k ?L)) \<inter> set (map wine_id (drop ?k ?L)) = {}"
    by (simp only: distinct_append)
  have sub: "set (take 4 (drop ?k ?L)) \<subseteq> set (drop ?k ?L)"
    by (rule set_take_subset)
  have "set (map wine_id (take 4 (drop ?k ?L))) \<subseteq> set (map wine_id (drop ?k ?L))"
    using sub by (simp only: set_map) (rule image_mono)
  with d show ?thesis
    unfolding s' by blast
qed

lemma show_recommendations_fields:
  assumes "recs \<noteq> []"
  shows "lastRecs (show_recommendations U catalog userQuery recs st) =
           fullRecs U catalog userQuery recs"
    and "shownIds (show_recommendations U catalog userQuery recs st) =
           map wine_id (take 4 (fullRecs U catalog userQuery recs))"
    and "requests (show_recommendations U catalog userQuery recs st) = requests st"
    and "\<exists>pre. messages (show_recommendations U catalog userQuery recs st) =
           pre @ recommendations_message (take 4 (fullRecs U catalog userQuery recs)) 0 #
           (if 4 < length (fullRecs U catalog userQuery recs) then [show_more_message] else [])"
  using assms by (auto simp: show_recommendations_def Let_def)


lemma handleSubmit_fields:
  assumes "trim input \<noteq> []" and "res_recommendations result \<noteq> []"
  shows "lastRecs (handleSubmit U clean catalog input (Some result) st) =
           fullRecs U catalog (trim input) (res_recommendations result)"
    and "shownIds (handleSubmit U clean catalog input (Some result) st) =
           map wine_id (take 4 (fullRecs U catalog (trim input) (res_recommendations result)))"
    and "requests (handleSubmit U clean catalog input (Some result) st) = requests st + 1"
    and "\<exists>pre. messages (handleSubmit U clean catalog input (Some result) st) =
           pre @ recommendations_message
             (take 4 (fullRecs U catalog (trim input) (res_recommendations result))) 0 #
           (if 4 < length (fullRecs U catalog (trim input) (res_recommendations result))
            then [show_more_message] else [])"
  using assms show_recommendations_fields [OF assms(2), of U catalog "trim input"]
  by (simp_all add: handleSubmit_def Let_def)

lemma paging_after_submit:
  assumes "trim input \<noteq> []" and "res_recommendations result \<noteq> []"
  shows "paging (handleSubmit U clean catalog input (Some result) st)"
  unfolding paging_def handleSubmit_fields [OF assms]
  by (simp add: min_def)

lemma ten_pages:
  assumes p: "paging st0" and L: "lastRecs st0 = L" and s: "shownIds st0 = map wine_id (take 4 L)"
    and len: "length L = 10" and d: "distinct (map wine_id L)"
  shows "messages (handleShowMore st0) =
           messages st0 @ [recommendations_message (take 4 (drop 4 L)) 4, show_more_message]"
    and "messages (handleShowMore (handleShowMore st0)) =
           messages (handleShowMore st0) @ [recommendations_message (drop 8 L) 8]"
    and "length (drop 8 L) = 2"
    and "handleShowMore (handleShowMore (handleShowMore st0)) = handleShowMore (handleShowMore st0)"
    and "shownIds (handleShowMore (handleShowMore st0)) = map wine_id L"
    and "distinct (shownIds (handleShowMore (handleShowMore st0)))"
    and "requests (handleShowMore (handleShowMore st0)) = requests st0"
proof -
  let ?st1 = "handleShowMore st0"
  let ?st2 = "handleShowMore ?st1"
  have k0: "length (shownIds st0) = 4"
    using len by (simp add: s)
  have b1: "take 4 (drop (length (shownIds st0)) (lastRecs st0)) = take 4 (drop 4 L)"
    by (simp only: k0 L)
  have b1_len: "length (take 4 (drop 4 L)) = 4"
    using len by simp
  then have b1_ne: "take 4 (drop (length (shownIds st0)) (lastRecs st0)) \<noteq> []"
    unfolding b1 by auto
  show m1: "messages ?st1 =
      messages st0 @ [recommendations_message (take 4 (drop 4 L)) 4, show_more_message]"
    unfolding handleShowMore_batch [OF b1_ne] b1 k0 L b1_len
    using len by simp
  have s1: "shownIds ?st1 = map wine_id (take 8 L)"
  proof -
    have "shownIds ?st1 = map wine_id (take 4 L) @ map wine_id (take 4 (drop 4 L))"
      unfolding handleShowMore_fields(1) b1 by (simp only: s)
    also have "\<dots> = map wine_id (take (4 + 4) L)"
      by (simp only: take_add map_append)
    finally show ?thesis by simp
  qed
  have L1: "lastRecs ?st1 = L"
    by (simp only: handleShowMore_fields(2) L)
  have k1: "length (shownIds ?st1) = 8"
    using len by (simp add: s1)
  have b2: "take 4 (drop (length (shownIds ?st1)) (lastRecs ?st1)) = drop 8 L"
    unfolding k1 L1 using len by simp
  show b2_len: "length (drop 8 L) = 2"
    using len by simp
  then have b2_ne: "take 4 (drop (length (shownIds ?st1)) (lastRecs ?st1)) \<noteq> []"
    unfolding b2 by auto
  show "messages ?st2 = messages ?st1 @ [recommendations_message (drop 8 L) 8]"
    unfolding handleShowMore_batch [OF b2_ne] b2 k1 L1 b2_len
    using len by simp
  show s2: "shownIds ?st2 = map wine_id L"
  proof -
    have "shownIds ?st2 = map wine_id (take 8 L) @ map wine_id (drop 8 L)"
      unfolding handleShowMore_fields(1) [of ?st1] b2 by (simp only: s1)
    also have "\<dots> = map wine_id (take 8 L @ drop 8 L)"
      by (simp only: map_append)
    finally show ?thesis by simp
  qed
  have L2: "lastRecs ?st2 = L"
    by (simp only: handleShowMore_fields(2) L)
  have "take 4 (drop (length (shownIds ?st2)) (lastRecs ?st2)) = []"
    unfolding s2 L2 by simp
  then show "handleShowMore ?st2 = ?st2"
    by (rule handleShowMore_empty)
  show "distinct (shownIds ?st2)"
    unfolding s2 by (rule d)
  show "requests ?st2 = requests st0"
    by (simp only: handleShowMore_fields(3))
qed

text \<open>
  C8. On a state whose shown ids are the ids of the first items of the padded list, and
  whose padded list has distinct ids, "show more" shows the next at most 4 items,
  starting at the number of ids shown; none of their ids was shown before; it sends no
  request; and the state stays of that kind. \<open>handleSubmit\<close> sends one request and
  leaves such a state. From a padded list of 10, \<open>handleSubmit\<close> shows 4 items and the
  button, the first "show more" the next 4 and the button, the second the last 2 and
  no button, and a third changes nothing.
\<close>

theorem pagination:
  "(paging st \<and> distinct (map wine_id (lastRecs st)) \<longrightarrow>
      shownIds (handleShowMore st) =
        shownIds st @ map wine_id (take 4 (drop (length (shownIds st)) (lastRecs st))) \<and>
      set (map wine_id (take 4 (drop (length (shownIds st)) (lastRecs st)))) \<inter>
        set (shownIds st) = {} \<and>
      lastRecs (handleShowMore st) = lastRecs st \<and>
      requests (handleShowMore st) = requests st \<and>
      paging (handleShowMore st) \<and>
      (take 4 (drop (length (shownIds st)) (lastRecs st)) = [] \<longrightarrow> handleShowMore st = st) \<and>
      (take 4 (drop (length (shownIds st)) (lastRecs st)) \<noteq> [] \<longrightarrow>
         messages (handleShowMore st) =
           messages st @
           recommendations_message (take 4 (drop (length (shownIds st)) (lastRecs st)))
             (length (shownIds st)) #
           (if length (shownIds st) +
               length (take 4 (drop (length (shownIds st)) (lastRecs st))) < length (lastRecs st)
            then [show_more_message] else []))) \<and>
   (trim input \<noteq> [] \<and> res_recommendations result \<noteq> [] \<longrightarrow>
      paging (handleSubmit U clean catalog input (Some result) st) \<and>
      lastRecs (handleSubmit U clean catalog input (Some result) st) =
        fullRecs U catalog (trim input) (res_recommendations result) \<and>
      shownIds (handleSubmit U clean catalog input (Some result) st) =
        map wine_id (take 4 (fullRecs U catalog (trim input) (res_recommendations result))) \<and>
      requests (handleSubmit U clean catalog input (Some result) st) = requests st + 1) \<and>
   (trim input \<noteq> [] \<and> res_recommendations result \<noteq> [] \<and>
    length (fullRecs U catalog (trim input) (res_recommendations result)) = 10 \<and>
    distinct (map wine_id (fullRecs U catalog (trim input) (res_recommendations result))) \<longrightarrow>
      (let L = fullRecs U catalog (trim input) (res_recommendations result);
           st0 = handleSubmit U clean catalog input (Some result) st;
           st1 = handleShowMore st0;
           st2 = handleShowMore st1
       in (\<exists>pre. messages st0 = pre @ [recommendations_message (take 4 L) 0, show_more_message]) \<and>
          messages st1 =
            messages st0 @ [recommendations_message (take 4 (drop 4 L)) 4, show_more_message] \<and>
          messages st2 = messages st1 @ [recommendations_message (drop 8 L) 8] \<and>
          length (drop 8 L) = 2 \<and>
          handleShowMore st2 = st2 \<and>
          shownIds st2 = map wine_id L \<and>
          distinct (shownIds st2) \<and>
          requests st2 = requests st0))"
proof -
  have A: "shownIds (handleShowMore st) =
        shownIds st @ map wine_id (take 4 (drop (length (shownIds st)) (lastRecs st))) \<and>
      set (map wine_id (take 4 (drop (length (shownIds st)) (lastRecs st)))) \<inter>
        set (shownIds st) = {} \<and>
      lastRecs (handleShowMore st) = lastRecs st \<and>
      requests (handleShowMore st) = requests st \<and>
      paging (handleShowMore st) \<and>
      (take 4 (drop (length (shownIds st)) (lastRecs st)) = [] \<longrightarrow> handleShowMore st = st) \<and>
      (take 4 (drop (length (shownIds st)) (lastRecs st)) \<noteq> [] \<longrightarrow>
         messages (handleShowMore st) =
           messages st @
           recommendations_message (take 4 (drop (length (shownIds st)) (lastRecs st)))
             (length (shownIds st)) #
           (if length (shownIds st) +
               length (take 4 (drop (length (shownIds st)) (lastRecs st))) < length (lastRecs st)
            then [show_more_message] else []))"
    if "paging st" and "distinct (map wine_id (lastRecs st))"
  proof (intro conjI impI)
    show "set (map wine_id (take 4 (drop (length (shownIds st)) (lastRecs st)))) \<inter>
        set (shownIds st) = {}"
      by (rule batch_fresh [OF that])
    show "paging (handleShowMore st)"
      by (rule paging_step [OF that(1)])
    show "handleShowMore st = st"
      if "take 4 (drop (length (shownIds st)) (lastRecs st)) = []"
      by (rule handleShowMore_empty [OF that])
    show "messages (handleShowMore st) =
           messages st @
           recommendations_message (take 4 (drop (length (shownIds st)) (lastRecs st)))
             (length (shownIds st)) #
           (if length (shownIds st) +
               length (take 4 (drop (length (shownIds st)) (lastRecs st))) < length (lastRecs st)
            then [show_more_message] else [])"
      if "take 4 (drop (length (shownIds st)) (lastRecs st)) \<noteq> []"
      by (subst handleShowMore_batch [OF that]) simp
  qed (rule handleShowMore_fields)+
  have B: "paging (handleSubmit U clean catalog input (Some result) st) \<and>
      lastRecs (handleSubmit U clean catalog input (Some result) st) =
        fullRecs U catalog (trim input) (res_recommendations result) \<and>
      shownIds (handleSubmit U clean catalog input (Some result) st) =
        map wine_id (take 4 (fullRecs U catalog (trim input) (res_recommendations result))) \<and>
      requests (handleSubmit U clean catalog input (Some result) st) = requests st + 1"
    if "trim input \<noteq> []" and "res_recommendations result \<noteq> []"
    using paging_after_submit [OF that] handleSubmit_fields(1-3) [OF that] by blast
  have C: "(let L = fullRecs U catalog (trim input) (res_recommendations result);
           st0 = handleSubmit U clean catalog input (Some result) st;
           st1 = handleShowMore st0;
           st2 = handleShowMore st1
       in (\<exists>pre. messages st0 = pre @ [recommendations_message (take 4 L) 0, show_more_message]) \<and>
          messages st1 =
            messages st0 @ [recommendations_message (take 4 (drop 4 L)) 4, show_more_message] \<and>
          messages st2 = messages st1 @ [recommendations_message (drop 8 L) 8] \<and>
          length (drop 8 L) = 2 \<and>
          handleShowMore st2 = st2 \<and>
          shownIds st2 = map wine_id L \<and>
          distinct (shownIds st2) \<and>
          requests st2 = requests st0)"
    if i: "trim input \<noteq> []" and r: "res_recommendations result \<noteq> []"
      and len: "length (fullRecs U catalog (trim input) (res_recommendations result)) = 10"
      and d: "distinct (map wine_id (fullRecs U catalog (trim input) (res_recommendations result)))"
  proof -
    note f = handleSubmit_fields [OF i r, of U clean catalog st]
    have m0: "\<exists>pre. messages (handleSubmit U clean catalog input (Some result) st) =
        pre @ [recommendations_message
          (take 4 (fullRecs U catalog (trim input) (res_recommendations result))) 0,
          show_more_message]"
      using f(4) len by simp
    note t = ten_pages [OF paging_after_submit [OF i r] f(1) f(2) len d]
    show ?thesis
      unfolding Let_def using m0 t by (intro conjI)
  qed
  from A B C show ?thesis
    by blast
qed


lemma trim_dinner: "trim (js '' dinner '') = js ''dinner''"
  by (simp add: trim_def js_def is_space_def)

lemma colorKey_dinner: "colorKey latin1 (js ''dinner'') = None"
  by (simp add: colorKey_def latin1_def lower_char_def js_def)

lemma cellar_ids: "wine_id (cellar_wine i) = js i"
  by (simp add: cellar_wine_def wine_of_def)

lemma fullRecs_dinner:
  "fullRecs latin1 cellar (js ''dinner'') [cellar_wine ''p3'', cellar_wine ''p1''] =
     map cellar_wine
       [''p3'', ''p1'', ''p0'', ''p2'', ''p4'', ''p5'', ''p6'', ''p7'', ''p8'', ''p9'']"
  by (simp add: fullRecs_def colorKey_dinner cellar_def cellar_ids js_eq_iff)

theorem pagination_witness:
  "(let st0 = handleSubmit latin1 id cellar (js '' dinner '') (Some answer_p3_p1) first_visit;
        st1 = handleShowMore st0;
        st2 = handleShowMore st1
    in lastRecs st0 =
         map cellar_wine
           [''p3'', ''p1'', ''p0'', ''p2'', ''p4'', ''p5'', ''p6'', ''p7'', ''p8'', ''p9''] \<and>
       shownIds st0 = map js [''p3'', ''p1'', ''p0'', ''p2''] \<and>
       requests st0 = 1 \<and>
       messages st1 =
         messages st0 @
         [recommendations_message (map cellar_wine [''p4'', ''p5'', ''p6'', ''p7'']) 4,
          show_more_message] \<and>
       messages st2 =
         messages st1 @ [recommendations_message (map cellar_wine [''p8'', ''p9'']) 8] \<and>
       shownIds st2 =
         map js [''p3'', ''p1'', ''p0'', ''p2'', ''p4'', ''p5'', ''p6'', ''p7'', ''p8'', ''p9''] \<and>
       handleShowMore st2 = st2 \<and>
       requests st2 = 1)"
proof -
  let ?L = "fullRecs latin1 cellar (trim (js '' dinner '')) (res_recommendations answer_p3_p1)"
  have L: "?L = map cellar_wine
       [''p3'', ''p1'', ''p0'', ''p2'', ''p4'', ''p5'', ''p6'', ''p7'', ''p8'', ''p9'']"
    by (simp add: trim_dinner answer_p3_p1_def fullRecs_dinner)
  have 1: "trim (js '' dinner '') \<noteq> []"
    unfolding trim_dinner by (simp add: js_def)
  have 2: "res_recommendations answer_p3_p1 \<noteq> []"
    by (simp add: answer_p3_p1_def)
  have 3: "length ?L = 10"
    by (simp add: L)
  have 4: "distinct (map wine_id ?L)"
    by (simp add: L cellar_ids js_eq_iff)
  note p = pagination [where U = latin1 and clean = id and catalog = cellar
      and input = "js '' dinner ''" and result = answer_p3_p1 and st = first_visit]
  note B = p [THEN conjunct2, THEN conjunct1, rule_format, OF conjI [OF 1 2]]
  note C = p [THEN conjunct2, THEN conjunct2, rule_format, OF conjI [OF 1 conjI [OF 2 conjI [OF 3 4]]]]
  show ?thesis
    using B C by (simp add: Let_def L first_visit_def cellar_ids)
qed

section \<open>Recommendation extractor: numbered titles\<close>





lemma nfd_char_ascii: "c < 0xC0 \<Longrightarrow> nfd_char c = [c]"
proof -
  assume c: "c < 0xC0"
  have "\<forall>k \<in> fst ` set latin1_decompositions. 0xC0 \<le> k"
    by (simp add: latin1_decompositions_def decomposition_row_def upt_rec)
  then have "c \<notin> fst ` set latin1_decompositions"
    using c by auto
  then have "map_of latin1_decompositions c = None"
    by (simp add: map_of_eq_None_iff)
  then show ?thesis
    by (simp add: nfd_char_def)
qed

lemmas normalize_eval = normalize_str_def latin1_def lower_char_def nfd_char_ascii trim_def
  is_word_def is_space_def js_def


lemma normalize_accents:
  "normalize_str latin1 (js ''  Ros'' @ [0xE9] @ js '' d'' @ [0x27] @ js ''Anjou   2020! '') =
     js ''rose danjou 2020''"
proof -
  have "nfd_char 0xE9 = [0x65, 0x301]"
    by (simp add: nfd_char_def latin1_decompositions_def decomposition_row_def upt_rec)
  then show ?thesis
    by (simp add: normalize_eval)
qed








section \<open>Recommendation extractor: names in the reply\<close>

lemma names_loop_filter:
  "names_loop U t ws acc =
     (if 8 \<le> length acc then acc
      else acc @ take (8 - length acc) (filter (name_in_reply U t) ws))"
proof (induction ws arbitrary: acc)
  case Nil
  show ?case by simp
next
  case (Cons w ws)
  show ?case
  proof (cases "8 \<le> length acc")
    case True
    then show ?thesis by simp
  next
    case False
    show ?thesis
    proof (cases "name_in_reply U t w")
      case True
      have "names_loop U t (w # ws) acc = names_loop U t ws (acc @ [w])"
        using False True by simp
      also have "\<dots> = (if 8 \<le> length (acc @ [w]) then acc @ [w]
          else (acc @ [w]) @ take (8 - length (acc @ [w])) (filter (name_in_reply U t) ws))"
        by (rule Cons.IH)
      also have "\<dots> = acc @ take (8 - length acc) (filter (name_in_reply U t) (w # ws))"
        using False True by (auto simp: take_Cons' not_le)
      finally show ?thesis
        using False by simp
    next
      case no: False
      then show ?thesis
        using False Cons.IH [of acc] by simp
    qed
  qed
qed

lemma recsByName_filter:
  "recsByName U response wines =
     take 8 (filter (name_in_reply U (toLowerCase U response)) wines)"
  by (simp add: recsByName_def names_loop_filter)

lemma extract_names:
  assumes "ids_layer response wines = None" and "titles_layer U response wines = None"
  shows "extractRecommendationsFromResponse U response wines =
     (if recsByName U response wines \<noteq> [] then recsByName U response wines
      else getIntelligentFallback U wines)"
  using assms by (simp add: extractRecommendationsFromResponse_def names_layer_def Let_def)

text \<open>
  C5 (amended). When the first two layers yield nothing, the substring layer goes through
  the candidates in the order of the catalog and keeps the first 8 whose display name is
  not empty and whose lower-cased display name occurs in the lower-cased reply. The
  extractor returns them when there is one, and the category fallback otherwise.
\<close>

theorem names_layer_order:
  assumes "ids_layer response wines = None" and "titles_layer U response wines = None"
  shows "recsByName U response wines =
           take 8 (filter (\<lambda>w. Product_name w \<noteq> [] \<and>
                     includes_str (toLowerCase U response) (toLowerCase U (Product_name w)))
                   wines) \<and>
         (recsByName U response wines \<noteq> [] \<longrightarrow>
            extractRecommendationsFromResponse U response wines = recsByName U response wines) \<and>
         (recsByName U response wines = [] \<longrightarrow>
            extractRecommendationsFromResponse U response wines = getIntelligentFallback U wines)"
proof (intro conjI impI)
  show "recsByName U response wines =
      take 8 (filter (\<lambda>w. Product_name w \<noteq> [] \<and>
                includes_str (toLowerCase U response) (toLowerCase U (Product_name w)))
              wines)"
    by (simp add: recsByName_filter name_in_reply_def [abs_def])
  show "extractRecommendationsFromResponse U response wines = recsByName U response wines"
    if "recsByName U response wines \<noteq> []"
    using extract_names [OF assms] that by simp
  show "extractRecommendationsFromResponse U response wines = getIntelligentFallback U wines"
    if "recsByName U response wines = []"
    using extract_names [OF assms] that by simp
qed

lemma lower_reply_names:
  "toLowerCase latin1 reply_names = js ''i suggest the merlot reserve tonight.''"
  by (simp add: reply_names_def latin1_def lower_char_def js_def)

lemma lower_sample_names:
  "toLowerCase latin1 (js ''Merlot Reserve'') = js ''merlot reserve''"
  "toLowerCase latin1 (js ''Merlot'') = js ''merlot''"
  "toLowerCase latin1 (js ''Chablis'') = js ''chablis''"
  by (simp_all add: latin1_def lower_char_def js_def)

lemma names_in_reply:
  "name_in_reply latin1 (js ''i suggest the merlot reserve tonight.'') wine_a"
  "\<not> name_in_reply latin1 (js ''i suggest the merlot reserve tonight.'') wine_b"
  "name_in_reply latin1 (js ''i suggest the merlot reserve tonight.'') wine_c"
proof -
  have "includes_str (js ''i suggest the merlot reserve tonight.'') (js ''merlot reserve'')"
    by (simp add: js_def)
  then show "name_in_reply latin1 (js ''i suggest the merlot reserve tonight.'') wine_a"
    by (simp add: name_in_reply_def sample_names lower_sample_names) (simp add: js_def)
  have "\<not> includes_str (js ''i suggest the merlot reserve tonight.'') (js ''chablis'')"
    by (simp add: js_def)
  then show "\<not> name_in_reply latin1 (js ''i suggest the merlot reserve tonight.'') wine_b"
    by (simp add: name_in_reply_def sample_names lower_sample_names)
  have "includes_str (js ''i suggest the merlot reserve tonight.'') (js ''merlot'')"
    by (simp add: js_def)
  then show "name_in_reply latin1 (js ''i suggest the merlot reserve tonight.'') wine_c"
    by (simp add: name_in_reply_def sample_names lower_sample_names) (simp add: js_def)
qed

lemma ids_names: "ids_layer reply_names wines = None"
  by (simp add: ids_layer_def reply_names_def layer_eval)

lemma titles_names: "titles_layer latin1 reply_names wines = None"
proof -
  have "scan_titles True reply_names = []"
    by (simp add: reply_names_def layer_eval)
  then show ?thesis
    by (simp add: titles_layer_def matchedByTitle_def)
qed

theorem names_layer_order_witness:
  "ids_layer reply_names [wine_a, wine_b, wine_c] = None \<and>
   titles_layer latin1 reply_names [wine_a, wine_b, wine_c] = None \<and>
   recsByName latin1 reply_names [wine_a, wine_b, wine_c] = [wine_a, wine_c] \<and>
   extractRecommendationsFromResponse latin1 reply_names [wine_a, wine_b, wine_c] =
     [wine_a, wine_c]"
proof -
  note t = names_layer_order [where U = latin1 and response = reply_names
      and wines = "[wine_a, wine_b, wine_c]", OF ids_names titles_names]
  have f: "filter (\<lambda>w. Product_name w \<noteq> [] \<and>
        includes_str (toLowerCase latin1 reply_names) (toLowerCase latin1 (Product_name w)))
      [wine_a, wine_b, wine_c] = [wine_a, wine_c]"
    using names_in_reply by (simp add: name_in_reply_def lower_reply_names)
  have r: "recsByName latin1 reply_names [wine_a, wine_b, wine_c] = [wine_a, wine_c]"
    using t [THEN conjunct1] by (simp only: f) simp
  have "extractRecommendationsFromResponse latin1 reply_names [wine_a, wine_b, wine_c] =
      [wine_a, wine_c]"
    using t [THEN conjunct2, THEN conjunct1] by (simp add: r)
  then show ?thesis
    by (simp add: ids_names titles_names r)
qed

theorem names_layer_counterexample:
  "ids_layer reply_names [wine_c, wine_b, wine_a] = None \<and>
   titles_layer latin1 reply_names [wine_c, wine_b, wine_a] = None \<and>
   length (Product_name wine_c) < length (Product_name wine_a) \<and>
   extractRecommendationsFromResponse latin1 reply_names [wine_c, wine_b, wine_a] =
     [wine_c, wine_a] \<and>
   recsByName_longest_first latin1 reply_names [wine_c, wine_b, wine_a] = [wine_a, wine_c] \<and>
   [wine_c, wine_a] \<noteq> [wine_a, wine_c]"
proof -
  have r: "recsByName latin1 reply_names [wine_c, wine_b, wine_a] = [wine_c, wine_a]"
    by (simp add: recsByName_filter lower_reply_names names_in_reply)
  have e: "extractRecommendationsFromResponse latin1 reply_names [wine_c, wine_b, wine_a] =
      [wine_c, wine_a]"
    using extract_names [OF ids_names titles_names, of "[wine_c, wine_b, wine_a]"]
    by (simp add: r)
  have s: "rev (sort_key (\<lambda>w. length (Product_name w)) [wine_c, wine_b, wine_a]) =
      [wine_a, wine_b, wine_c]"
    by (simp add: sample_names js_def)
  have l: "recsByName_longest_first latin1 reply_names [wine_c, wine_b, wine_a] =
      [wine_a, wine_c]"
    unfolding recsByName_longest_first_def s
    by (simp add: names_loop_filter lower_reply_names names_in_reply)
  have n: "wine_c \<noteq> wine_a"
    by (simp add: wine_a_def wine_c_def wine_of_def js_eq_iff)
  have k: "length (Product_name wine_c) < length (Product_name wine_a)"
    by (simp add: sample_names js_def)
  show ?thesis
    using n by (simp add: ids_names titles_names e l k)
qed

end
